theory Spec2Isabelle
  imports Complex_Main "HOL-Library.AList" "HOL-Library.Sublist"
begin

section \<open>JavaScript values\<close>

text \<open>
  A JavaScript number is modelled as a real number, a signed infinity or NaN. Finite
  doubles are idealised as reals: rounding, overflow and the sign of zero are not
  modelled. What is modelled is where the arithmetic of the source leaves the finite
  numbers: reading an array out of range gives \<open>undefined\<close>, which arithmetic turns into
  NaN, and a division by zero gives NaN or an infinity. A statement on the value of a
  computation is therefore a statement in exact arithmetic: where it evaluates the code
  on small integers (0, 1) the doubles agree with it; a bound such as the range of the
  cosine holds for the doubles only up to rounding, and not where a square overflows.
\<close>

datatype js_number = Num real | NaN | Inf bool

text \<open>\<open>Inf True\<close> is \<open>Infinity\<close>, \<open>Inf False\<close> is \<open>-Infinity\<close>.\<close>

fun js_add :: "js_number \<Rightarrow> js_number \<Rightarrow> js_number" where
  "js_add (Num x) (Num y) = Num (x + y)"
| "js_add (Num x) (Inf t) = Inf t"
| "js_add (Inf s) (Num y) = Inf s"
| "js_add (Inf s) (Inf t) = (if s = t then Inf s else NaN)"
| "js_add NaN b = NaN"
| "js_add a NaN = NaN"

fun js_neg :: "js_number \<Rightarrow> js_number" where
  "js_neg (Num x) = Num (- x)"
| "js_neg (Inf s) = Inf (\<not> s)"
| "js_neg NaN = NaN"

definition js_sub :: "js_number \<Rightarrow> js_number \<Rightarrow> js_number" where
  "js_sub a b = js_add a (js_neg b)"

fun js_mul :: "js_number \<Rightarrow> js_number \<Rightarrow> js_number" where
  "js_mul (Num x) (Num y) = Num (x * y)"
| "js_mul (Num x) (Inf t) = (if x = 0 then NaN else Inf (t = (0 < x)))"
| "js_mul (Inf s) (Num y) = (if y = 0 then NaN else Inf (s = (0 < y)))"
| "js_mul (Inf s) (Inf t) = Inf (s = t)"
| "js_mul NaN b = NaN"
| "js_mul a NaN = NaN"

fun js_div :: "js_number \<Rightarrow> js_number \<Rightarrow> js_number" where
  "js_div (Num x) (Num y) =
     (if y = 0 then (if x = 0 then NaN else Inf (0 < x)) else Num (x / y))"
| "js_div (Num x) (Inf t) = Num 0"
| "js_div (Inf s) (Num y) = Inf (s = (0 \<le> y))"
| "js_div (Inf s) (Inf t) = NaN"
| "js_div NaN b = NaN"
| "js_div a NaN = NaN"

fun js_sqrt :: "js_number \<Rightarrow> js_number" where
  "js_sqrt (Num x) = (if x < 0 then NaN else Num (sqrt x))"
| "js_sqrt (Inf s) = (if s then Inf True else NaN)"
| "js_sqrt NaN = NaN"

text \<open>\<open>v > 0\<close> on a JavaScript number: false for NaN.\<close>

fun js_positive :: "js_number \<Rightarrow> bool" where
  "js_positive (Num x) = (0 < x)"
| "js_positive (Inf s) = s"
| "js_positive NaN = False"

text \<open>\<open>vec[i]\<close> used as a number: \<open>undefined\<close> (hence NaN in arithmetic) out of range.\<close>

definition js_index :: "real list \<Rightarrow> nat \<Rightarrow> js_number" where
  "js_index vec i = (if i < length vec then Num (vec ! i) else NaN)"

text \<open>
  A thrown \<open>Error\<close>: its \<open>message\<close>, and the detail an HTTP client error carries at
  \<open>err.response.data.error.message\<close> when it has one.
\<close>

datatype error = Error (message: string) (response_detail: "string option")

section \<open>Cosine similarity\<close>

text \<open>
  The loop shared by both copies of \<open>cosineSimilarity\<close>: for \<open>i\<close> from 0 below
  \<open>vecA.length\<close> it adds to \<open>dotProduct\<close>, \<open>normA\<close> and \<open>normB\<close>.
\<close>

definition cosine_step ::
  "real list \<Rightarrow> real list \<Rightarrow> nat \<Rightarrow> js_number \<times> js_number \<times> js_number
     \<Rightarrow> js_number \<times> js_number \<times> js_number" where
  "cosine_step vecA vecB i acc =
     (case acc of (dotProduct, normA, normB) \<Rightarrow>
        (js_add dotProduct (js_mul (js_index vecA i) (js_index vecB i)),
         js_add normA (js_mul (js_index vecA i) (js_index vecA i)),
         js_add normB (js_mul (js_index vecB i) (js_index vecB i))))"

definition cosine_loop :: "real list \<Rightarrow> real list \<Rightarrow> js_number \<times> js_number \<times> js_number" where
  "cosine_loop vecA vecB =
     fold (cosine_step vecA vecB) [0..<length vecA] (Num 0, Num 0, Num 0)"

text \<open>
  \<open>cosineSimilarity\<close> of src/utils/embedding-utils.js (lines 55-67): no validation. A
  missing vector (\<open>None\<close>) makes \<open>vecA.length\<close>, or \<open>vecB[i]\<close> once the loop runs, a
  TypeError.
\<close>

definition cosineSimilarity_v1 ::
  "real list option \<Rightarrow> real list option \<Rightarrow> error + js_number" where
  "cosineSimilarity_v1 vecA vecB =
     (case vecA of
        None \<Rightarrow> Inl (Error ''TypeError'' None)
      | Some a \<Rightarrow>
          (case vecB of
             None \<Rightarrow>
               (if length a = 0 then Inr (js_div (Num 0) (js_mul (js_sqrt (Num 0)) (js_sqrt (Num 0))))
                else Inl (Error ''TypeError'' None))
           | Some b \<Rightarrow>
               (case cosine_loop a b of (dotProduct, normA, normB) \<Rightarrow>
                  Inr (js_div dotProduct (js_mul (js_sqrt normA) (js_sqrt normB))))))"

text \<open>
  \<open>cosineSimilarity\<close> of src/unnamed/part_001 (lines 74-94): the later copy of the same
  module, with the input validation and the guard against a zero norm.
\<close>

definition cosineSimilarity_v2 ::
  "real list option \<Rightarrow> real list option \<Rightarrow> js_number" where
  "cosineSimilarity_v2 vecA vecB =
     (case vecA of
        None \<Rightarrow> Num 0
      | Some a \<Rightarrow>
          (case vecB of
             None \<Rightarrow> Num 0
           | Some b \<Rightarrow>
               if length a \<noteq> length b \<or> length a = 0 then Num 0
               else
                 (case cosine_loop a b of (dotProduct, normA, normB) \<Rightarrow>
                    if normA = Num 0 \<or> normB = Num 0 then Num 0
                    else js_div dotProduct (js_mul (js_sqrt normA) (js_sqrt normB)))))"

section \<open>Strings and arrays\<close>

text \<open>
  A string is a list of characters; a character of the model stands for a UTF-16 code
  unit of the source, which is what \<open>length\<close> and \<open>substring\<close> count there. The model
  has the code units below 256: a string with a code unit above U+00FF has no
  counterpart here.
  \<open>s.substring(0, n)\<close> is \<open>take n s\<close>.

  \<open>parts.join(sep)\<close>:
\<close>

fun join :: "string \<Rightarrow> string list \<Rightarrow> string" where
  "join sep [] = []"
| "join sep [x] = x"
| "join sep (x # y # ys) = x @ sep @ join sep (y # ys)"

text \<open>
  \<open>xs.slice(start, end)\<close> with integer arguments: a negative index counts from the end,
  both are clamped to the array, and an empty range gives the empty array.
\<close>

definition slice_js :: "'a list \<Rightarrow> int \<Rightarrow> int \<Rightarrow> 'a list" where
  "slice_js xs start fin =
     (let n = int (length xs);
          k = (if start < 0 then max (n + start) 0 else min start n);
          e = (if fin < 0 then max (n + fin) 0 else min fin n)
      in take (nat (e - k)) (drop (nat k) xs))"

text \<open>
  \<open>xs.sort(compare)\<close>, where \<open>after a b\<close> says that \<open>compare(a, b) > 0\<close>, that is, that
  \<open>a\<close> has to come after \<open>b\<close>. The sort of ECMAScript is stable; an insertion sort that
  moves an element only past those it has to come after is the stable sort whenever the
  comparison is a consistent order. Where it is not (a NaN score), ECMAScript leaves the
  order to the implementation, and the model gives this insertion sort's order.
\<close>

fun insert_js :: "('a \<Rightarrow> 'a \<Rightarrow> bool) \<Rightarrow> 'a \<Rightarrow> 'a list \<Rightarrow> 'a list" where
  "insert_js after x [] = [x]"
| "insert_js after x (y # ys) =
     (if after x y then y # insert_js after x ys else x # y # ys)"

definition sort_js :: "('a \<Rightarrow> 'a \<Rightarrow> bool) \<Rightarrow> 'a list \<Rightarrow> 'a list" where
  "sort_js after xs = foldr (insert_js after) xs []"

section \<open>The embedding provider and its cache\<close>

text \<open>
  The module state is the \<open>embeddingCache\<close>, a JavaScript \<open>Map\<close>: its entries in
  insertion order. \<open>ticks\<close> counts the calls made so far to the external capabilities,
  so that the same request can fail once and succeed on a retry.
\<close>

record world =
  embeddingCache :: "(string \<times> real list) list"
  ticks :: nat

text \<open>
  The environment of a run: what each call to an external capability answers (by call
  number and input), whether \<open>NODE_ENV\<close> is \<open>development\<close>, what \<open>Math.random\<close> returns,
  and the number of retries \<open>withRetry\<close> makes when the caller names none.
\<close>

record env =
  embedContent :: "nat \<Rightarrow> string \<Rightarrow> error + real list"
  generateContent :: "nat \<Rightarrow> string \<Rightarrow> error + string"
  development :: bool
  random :: "nat \<Rightarrow> nat \<Rightarrow> real"
  defaultRetries :: nat

definition embedContent_call :: "env \<Rightarrow> string \<Rightarrow> world \<Rightarrow> (error + real list) \<times> world" where
  "embedContent_call e txt w = (embedContent e (ticks w) txt, w\<lparr>ticks := Suc (ticks w)\<rparr>)"

definition generateContent_call :: "env \<Rightarrow> string \<Rightarrow> world \<Rightarrow> (error + string) \<times> world" where
  "generateContent_call e prompt w =
     (generateContent e (ticks w) prompt, w\<lparr>ticks := Suc (ticks w)\<rparr>)"

text \<open>
  Modelled from the spec: \<open>withRetry\<close> of utils/retry-utils.js, which is not among the
  sources. The spec gives it an attempt budget of the initial call plus \<open>maxRetries\<close>
  retries and has it propagate the failure when the budget is exhausted; the backoff
  between attempts is time and is not modelled.
\<close>

fun withRetry :: "nat \<Rightarrow> (world \<Rightarrow> (error + 'a) \<times> world) \<Rightarrow> world \<Rightarrow> (error + 'a) \<times> world" where
  "withRetry 0 fn w = fn w"
| "withRetry (Suc maxRetries) fn w =
     (case fn w of
        (Inr v, w1) \<Rightarrow> (Inr v, w1)
      | (Inl err, w1) \<Rightarrow> withRetry maxRetries fn w1)"

text \<open>\<open>embeddingCache.set(key, v)\<close> is \<open>AList.update\<close>: an existing key keeps its place, a
  new one goes last. The eviction deletes the first key of the iteration order.\<close>

definition cache_store :: "string \<Rightarrow> real list \<Rightarrow> world \<Rightarrow> world" where
  "cache_store cacheKey embedding w =
     (let w1 = w\<lparr>embeddingCache := AList.update cacheKey embedding (embeddingCache w)\<rparr>
      in if length (embeddingCache w1) > 1000
         then (case embeddingCache w1 of
                 [] \<Rightarrow> w1
               | (oldestKey, _) # _ \<Rightarrow>
                   w1\<lparr>embeddingCache := AList.delete oldestKey (embeddingCache w1)\<rparr>)
         else w1)"

text \<open>\<open>generateEmbedding\<close> of src/utils/embedding-utils.js (lines 10-37).\<close>

definition generateEmbedding_v1 :: "env \<Rightarrow> string \<Rightarrow> world \<Rightarrow> (error + real list) \<times> world" where
  "generateEmbedding_v1 e txt w =
     (let cacheKey = take 100 txt in
      case map_of (embeddingCache w) cacheKey of
        Some cached \<Rightarrow> (Inr cached, w)
      | None \<Rightarrow>
          (case embedContent_call e txt w of
             (Inr embedding, w1) \<Rightarrow> (Inr embedding, cache_store cacheKey embedding w1)
           | (Inl err, w1) \<Rightarrow> (Inl (Error ''Failed to generate embedding'' None), w1)))"

text \<open>The mock embedding of the development fallback: 768 values \<open>Math.random() * 2 - 1\<close>.\<close>

definition mock_embedding :: "env \<Rightarrow> world \<Rightarrow> real list" where
  "mock_embedding e w = map (\<lambda>i. random e (ticks w) i * 2 - 1) [0..<768]"

text \<open>\<open>generateEmbedding\<close> of src/unnamed/part_001 (lines 12-48): retries, and the
  development fallback in the handler.\<close>

definition generateEmbedding_v2 :: "env \<Rightarrow> string \<Rightarrow> world \<Rightarrow> (error + real list) \<times> world" where
  "generateEmbedding_v2 e txt w =
     (let cacheKey = take 100 txt in
      case map_of (embeddingCache w) cacheKey of
        Some cached \<Rightarrow> (Inr cached, w)
      | None \<Rightarrow>
          (case withRetry 2 (embedContent_call e txt) w of
             (Inr embedding, w1) \<Rightarrow> (Inr embedding, cache_store cacheKey embedding w1)
           | (Inl err, w1) \<Rightarrow>
               if development e then (Inr (mock_embedding e w1), w1)
               else (Inl (Error ''Failed to generate embedding'' None), w1)))"

section \<open>Batch embedding\<close>

record chunk =
  c_text :: string
  c_embedding :: "real list option"
  c_fileName :: "string option"

text \<open>\<open>generateChunkEmbeddings\<close> of src/utils/embedding-utils.js (lines 40-52): the
  loop, with \<open>embeddedChunks\<close> as accumulator. A failed embedding leaves the loop.\<close>

fun generateChunkEmbeddings_loop_v1 ::
  "env \<Rightarrow> string list \<Rightarrow> chunk list \<Rightarrow> world \<Rightarrow> (error + chunk list) \<times> world" where
  "generateChunkEmbeddings_loop_v1 e [] embeddedChunks w = (Inr embeddedChunks, w)"
| "generateChunkEmbeddings_loop_v1 e (c # rest) embeddedChunks w =
     (case generateEmbedding_v1 e c w of
        (Inr embedding, w1) \<Rightarrow>
          generateChunkEmbeddings_loop_v1 e rest
            (embeddedChunks @ [\<lparr>c_text = c, c_embedding = Some embedding, c_fileName = None\<rparr>]) w1
      | (Inl err, w1) \<Rightarrow> (Inl err, w1))"

definition generateChunkEmbeddings_v1 ::
  "env \<Rightarrow> string list \<Rightarrow> world \<Rightarrow> (error + chunk list) \<times> world" where
  "generateChunkEmbeddings_v1 e chunks w = generateChunkEmbeddings_loop_v1 e chunks [] w"

text \<open>\<open>generateChunkEmbeddings\<close> of src/unnamed/part_001 (lines 51-71): the handler
  inside the loop pushes the chunk with an empty embedding.\<close>

fun generateChunkEmbeddings_loop_v2 ::
  "env \<Rightarrow> string list \<Rightarrow> chunk list \<Rightarrow> world \<Rightarrow> (error + chunk list) \<times> world" where
  "generateChunkEmbeddings_loop_v2 e [] embeddedChunks w = (Inr embeddedChunks, w)"
| "generateChunkEmbeddings_loop_v2 e (c # rest) embeddedChunks w =
     (case generateEmbedding_v2 e c w of
        (Inr embedding, w1) \<Rightarrow>
          generateChunkEmbeddings_loop_v2 e rest
            (embeddedChunks @ [\<lparr>c_text = c, c_embedding = Some embedding, c_fileName = None\<rparr>]) w1
      | (Inl err, w1) \<Rightarrow>
          generateChunkEmbeddings_loop_v2 e rest
            (embeddedChunks @ [\<lparr>c_text = c, c_embedding = Some [], c_fileName = None\<rparr>]) w1)"

definition generateChunkEmbeddings_v2 ::
  "env \<Rightarrow> string list \<Rightarrow> world \<Rightarrow> (error + chunk list) \<times> world" where
  "generateChunkEmbeddings_v2 e chunks w = generateChunkEmbeddings_loop_v2 e chunks [] w"

section \<open>The retriever\<close>

record scored_chunk = chunk +
  score :: js_number

text \<open>The body of the \<open>map\<close> callback, the same in both copies: 70 percent similarity,
  30 percent length bonus.\<close>

definition lengthBonus :: "chunk \<Rightarrow> js_number" where
  "lengthBonus c = js_mul (Num (min 1 (real (length (c_text c)) / 2000))) (Num (3 / 10))"

definition with_score :: "chunk \<Rightarrow> js_number \<Rightarrow> scored_chunk" where
  "with_score c s =
     \<lparr>c_text = c_text c, c_embedding = c_embedding c, c_fileName = c_fileName c, score = s\<rparr>"

text \<open>\<open>(a, b) => b.score - a.score\<close> is positive.\<close>

definition by_score_desc :: "scored_chunk \<Rightarrow> scored_chunk \<Rightarrow> bool" where
  "by_score_desc a b = js_positive (js_sub (score b) (score a))"

text \<open>\<open>findRelevantChunks\<close> of src/utils/embedding-utils.js (lines 70-96). An absent
  \<open>embeddedChunks\<close> (\<open>None\<close>) or a TypeError of \<open>cosineSimilarity\<close> lands in the handler,
  which throws again.\<close>

fun score_all_v1 :: "real list \<Rightarrow> chunk list \<Rightarrow> error + scored_chunk list" where
  "score_all_v1 queryEmbedding [] = Inr []"
| "score_all_v1 queryEmbedding (c # cs) =
     (case cosineSimilarity_v1 (Some queryEmbedding) (c_embedding c) of
        Inl err \<Rightarrow> Inl err
      | Inr sim \<Rightarrow>
          (case score_all_v1 queryEmbedding cs of
             Inl err \<Rightarrow> Inl err
           | Inr rest \<Rightarrow>
               Inr (with_score c (js_add (js_mul sim (Num (7 / 10))) (lengthBonus c)) # rest)))"

definition findRelevantChunks_v1 ::
  "env \<Rightarrow> string \<Rightarrow> chunk list option \<Rightarrow> int \<Rightarrow> world \<Rightarrow> (error + scored_chunk list) \<times> world" where
  "findRelevantChunks_v1 e query embeddedChunks count w =
     (case generateEmbedding_v1 e query w of
        (Inl err, w1) \<Rightarrow> (Inl (Error ''Failed to find relevant chunks'' None), w1)
      | (Inr queryEmbedding, w1) \<Rightarrow>
          (case embeddedChunks of
             None \<Rightarrow> (Inl (Error ''Failed to find relevant chunks'' None), w1)
           | Some cs \<Rightarrow>
               (case score_all_v1 queryEmbedding cs of
                  Inl err \<Rightarrow> (Inl (Error ''Failed to find relevant chunks'' None), w1)
                | Inr scoredChunks \<Rightarrow>
                    (Inr (slice_js (sort_js by_score_desc scoredChunks) 0 count), w1))))"

text \<open>\<open>findRelevantChunks\<close> of src/unnamed/part_001 (lines 97-135): the early return,
  the filter on the embedding, and a handler that returns the empty array.\<close>

definition has_embedding :: "chunk \<Rightarrow> bool" where
  "has_embedding c = (case c_embedding c of None \<Rightarrow> False | Some v \<Rightarrow> length v > 0)"

definition score_chunk_v2 :: "real list \<Rightarrow> chunk \<Rightarrow> scored_chunk" where
  "score_chunk_v2 queryEmbedding c =
     with_score c
       (js_add (js_mul (cosineSimilarity_v2 (Some queryEmbedding) (c_embedding c)) (Num (7 / 10)))
               (lengthBonus c))"

definition findRelevantChunks_v2 ::
  "env \<Rightarrow> string \<Rightarrow> chunk list option \<Rightarrow> int \<Rightarrow> world \<Rightarrow> (error + scored_chunk list) \<times> world" where
  "findRelevantChunks_v2 e query embeddedChunks count w =
     (case embeddedChunks of
        None \<Rightarrow> (Inr [], w)
      | Some cs \<Rightarrow>
          if length cs = 0 then (Inr [], w)
          else
            (case generateEmbedding_v2 e query w of
               (Inl err, w1) \<Rightarrow> (Inr [], w1)
             | (Inr queryEmbedding, w1) \<Rightarrow>
                 (let scoredChunks = map (score_chunk_v2 queryEmbedding) (filter has_embedding cs)
                  in if length scoredChunks = 0 then (Inr [], w1)
                     else (Inr (slice_js (sort_js by_score_desc scoredChunks) 0 count), w1))))"

section \<open>The summarizer\<close>

record message =
  sender :: string
  content :: string
  m_embedding :: "real list option"
  fileRefs :: "(string \<times> string) list"

record summary_result =
  sr_text :: string
  sr_embedding :: "real list"

definition newline :: string where
  "newline = [CHR 0x0A]"

definition formattedMessages :: "message list \<Rightarrow> string" where
  "formattedMessages msgs =
     join (newline @ newline)
       (map (\<lambda>msg. (if sender msg = ''user'' then ''User'' else ''AI'') @ '': '' @ content msg) msgs)"

definition summary_prompt :: "message list \<Rightarrow> string" where
  "summary_prompt msgs =
     ''Summarize the following conversation, focusing on technical details and key decisions. Keep the summary concise but include all important information:''
     @ newline @ newline @ formattedMessages msgs"

text \<open>\<open>generateSummary\<close> of src/utils/embedding-utils.js (lines 99-134): one handler
  around everything, which throws again.\<close>

definition generateSummary_v1 ::
  "env \<Rightarrow> message list \<Rightarrow> world \<Rightarrow> (error + summary_result) \<times> world" where
  "generateSummary_v1 e msgs w =
     (case generateContent_call e (summary_prompt msgs) w of
        (Inl err, w1) \<Rightarrow> (Inl (Error ''Failed to generate summary'' None), w1)
      | (Inr summary, w1) \<Rightarrow>
          (case generateEmbedding_v1 e summary w1 of
             (Inl err, w2) \<Rightarrow> (Inl (Error ''Failed to generate summary'' None), w2)
           | (Inr embedding, w2) \<Rightarrow>
               (Inr \<lparr>sr_text = summary, sr_embedding = embedding\<rparr>, w2)))"

text \<open>\<open>generateSummary\<close> of src/unnamed/part_001 (lines 138-184): generation under
  \<open>withRetry\<close> with its default budget, an inner handler around the embedding, and an
  outer handler that returns the fallback summary.\<close>

definition generateSummary_v2 ::
  "env \<Rightarrow> message list \<Rightarrow> world \<Rightarrow> (error + summary_result) \<times> world" where
  "generateSummary_v2 e msgs w =
     (case withRetry (defaultRetries e) (generateContent_call e (summary_prompt msgs)) w of
        (Inl err, w1) \<Rightarrow>
          (Inr \<lparr>sr_text = ''Previous conversation covered various topics.'', sr_embedding = []\<rparr>, w1)
      | (Inr summary, w1) \<Rightarrow>
          (case generateEmbedding_v2 e summary w1 of
             (Inl err, w2) \<Rightarrow> (Inr \<lparr>sr_text = summary, sr_embedding = []\<rparr>, w2)
           | (Inr embedding, w2) \<Rightarrow>
               (Inr \<lparr>sr_text = summary, sr_embedding = embedding\<rparr>, w2)))"

section \<open>The controller\<close>

text \<open>
  The controller imports \<open>generateEmbedding\<close>, \<open>findRelevantChunks\<close> and
  \<open>generateSummary\<close> from the embedding module. The repository holds two copies of that
  module, so the controller is modelled over the three functions it imports.
\<close>

record utils =
  u_generateEmbedding :: "string \<Rightarrow> world \<Rightarrow> (error + real list) \<times> world"
  u_findRelevantChunks ::
    "string \<Rightarrow> chunk list option \<Rightarrow> int \<Rightarrow> world \<Rightarrow> (error + scored_chunk list) \<times> world"
  u_generateSummary :: "message list \<Rightarrow> world \<Rightarrow> (error + summary_result) \<times> world"

definition utils_v1 :: "env \<Rightarrow> utils" where
  "utils_v1 e =
     \<lparr>u_generateEmbedding = generateEmbedding_v1 e,
      u_findRelevantChunks = findRelevantChunks_v1 e,
      u_generateSummary = generateSummary_v1 e\<rparr>"

definition utils_v2 :: "env \<Rightarrow> utils" where
  "utils_v2 e =
     \<lparr>u_generateEmbedding = generateEmbedding_v2 e,
      u_findRelevantChunks = findRelevantChunks_v2 e,
      u_generateSummary = generateSummary_v2 e\<rparr>"

record summary =
  s_text :: string
  s_embedding :: "real list option"
  messageRange :: "int \<times> int"

record chat =
  messages :: "message list"
  summaries :: "summary list"
  title :: string

record file_record =
  f_id :: string
  f_fileName :: string
  f_chunks :: "(string \<times> real list option) list"

datatype event =
    Processing string string "string option"
  | MessageChunk string string
  | ErrorEvent string string

datatype response = Res404 | Res200 string string | Res500 string

record request =
  r_message :: string
  r_fileIds :: "string list option"
  r_chatId :: string
  r_userId :: string

text \<open>
  What the controller's collaborators answer in one request: whether \<open>Chat.findOne\<close>
  throws, the two \<open>File.find\<close> queries, each \<open>chat.save()\<close> (numbered 0, 1, 2 in the
  order of the source), whether the socket server \<open>io\<close> is set, and the streaming call
  with the chunk texts it yields and the error, if any, that ends the stream.
\<close>

record services =
  findOne_error :: "error option"
  find_refs :: "string list \<Rightarrow> error + (string \<times> string) list"
  find_files :: "string list \<Rightarrow> error + file_record list"
  save_error :: "nat \<Rightarrow> error option"
  io :: bool
  sendMessageStream ::
    "(string \<times> string) list \<Rightarrow> string \<Rightarrow> error + (string list \<times> error option)"

text \<open>
  The state a request runs in: the chat document as the database holds it (for the
  request's chat id and owner), the events emitted to the socket (room, event), and the
  state of the embedding module.
\<close>

record state =
  persisted :: "chat option"
  emitted :: "(string \<times> event) list"
  embed :: world

definition emit :: "services \<Rightarrow> request \<Rightarrow> event \<Rightarrow> state \<Rightarrow> state" where
  "emit sv req ev s = (if io sv then s\<lparr>emitted := emitted s @ [(r_userId req, ev)]\<rparr> else s)"

definition save :: "services \<Rightarrow> nat \<Rightarrow> chat \<Rightarrow> state \<Rightarrow> (error + unit) \<times> state" where
  "save sv k doc s =
     (case save_error sv k of
        Some err \<Rightarrow> (Inl err, s)
      | None \<Rightarrow> (Inr (), s\<lparr>persisted := Some doc\<rparr>))"

text \<open>\<open>getRelevantSummaries\<close> (lines 287-312).\<close>

definition getRelevantSummaries ::
  "utils \<Rightarrow> chat \<Rightarrow> string \<Rightarrow> world \<Rightarrow> (error + string) \<times> world" where
  "getRelevantSummaries U doc query w =
     (if length (summaries doc) = 0 then (Inr [], w)
      else
        (case u_findRelevantChunks U query
                (Some (map (\<lambda>sm. \<lparr>c_text = s_text sm, c_embedding = s_embedding sm,
                                    c_fileName = None\<rparr>) (summaries doc))) 1 w of
           (Inl err, w1) \<Rightarrow> (Inr [], w1)
         | (Inr relevantSummaries, w1) \<Rightarrow>
             (Inr (join (newline @ newline)
                     (map (\<lambda>sm. ''CONVERSATION SUMMARY: '' @ c_text sm) relevantSummaries)), w1)))"

text \<open>\<open>getRelevantMessages\<close> (lines 249-284).\<close>

definition message_has_embedding :: "message \<Rightarrow> bool" where
  "message_has_embedding msg = (case m_embedding msg of None \<Rightarrow> False | Some v \<Rightarrow> length v > 0)"

definition messagesWithEmbeddings :: "chat \<Rightarrow> message list" where
  "messagesWithEmbeddings doc = filter message_has_embedding (slice_js (messages doc) 0 (- 5))"

definition getRelevantMessages ::
  "utils \<Rightarrow> chat \<Rightarrow> string \<Rightarrow> world \<Rightarrow> (error + string) \<times> world" where
  "getRelevantMessages U doc query w =
     (if length (messages doc) \<le> 5 then (Inr [], w)
      else if length (messagesWithEmbeddings doc) = 0 then
        (case getRelevantSummaries U doc query w of
           (Inl err, w1) \<Rightarrow> (Inr [], w1)
         | (Inr r, w1) \<Rightarrow> (Inr r, w1))
      else
        (case u_findRelevantChunks U query
                (Some (map (\<lambda>msg. \<lparr>c_text = content msg, c_embedding = m_embedding msg,
                                     c_fileName = None\<rparr>) (messagesWithEmbeddings doc))) 3 w of
           (Inl err, w1) \<Rightarrow> (Inr [], w1)
         | (Inr relevantMessages, w1) \<Rightarrow>
             (Inr (join (newline @ newline) (map c_text relevantMessages)), w1)))"

text \<open>
  \<open>sendMessage\<close> (lines 16-246) is modelled in the order of the source. Each
  \<open>await\<close> that can reject is a result \<open>(error + 'a) \<times> state\<close>, and \<open>and_then\<close> passes a
  rejection on to the handler at the end (lines 231-245).
\<close>

definition and_then ::
  "(error + 'a) \<times> 's \<Rightarrow> ('a \<Rightarrow> 's \<Rightarrow> (error + 'b) \<times> 's) \<Rightarrow> (error + 'b) \<times> 's" where
  "and_then r f = (case r of (Inl err, s) \<Rightarrow> (Inl err, s) | (Inr v, s) \<Rightarrow> f v s)"

text \<open>Runs a function of the embedding module on the module's part of the state.\<close>

definition in_module :: "(world \<Rightarrow> (error + 'a) \<times> world) \<Rightarrow> state \<Rightarrow> (error + 'a) \<times> state" where
  "in_module f s = (case f (embed s) of (r, w1) \<Rightarrow> (r, s\<lparr>embed := w1\<rparr>))"

text \<open>Lines 26-38: the file references of the request.\<close>

definition resolve_refs :: "services \<Rightarrow> request \<Rightarrow> error + (string \<times> string) list" where
  "resolve_refs sv req =
     (case r_fileIds req of
        None \<Rightarrow> Inr []
      | Some ids \<Rightarrow> if length ids > 0 then find_refs sv ids else Inr [])"

definition user_message :: "request \<Rightarrow> real list \<Rightarrow> (string \<times> string) list \<Rightarrow> message" where
  "user_message req messageEmbedding fileReferences =
     \<lparr>sender = ''user'', content = r_message req, m_embedding = Some messageEmbedding,
      fileRefs = fileReferences\<rparr>"

text \<open>
  Lines 23-59: look the chat up, resolve the file references, embed the message, push
  it, save, and signal that processing has started. The result is the 404 response, or
  the document with the user message and the file references.
\<close>

definition receive ::
  "utils \<Rightarrow> services \<Rightarrow> request \<Rightarrow> state
     \<Rightarrow> (error + (response + chat \<times> (string \<times> string) list)) \<times> state" where
  "receive U sv req s =
     (case findOne_error sv of
        Some err \<Rightarrow> (Inl err, s)
      | None \<Rightarrow>
          (case persisted s of
             None \<Rightarrow> (Inr (Inl Res404), s)
           | Some doc \<Rightarrow>
               (case resolve_refs sv req of
                  Inl err \<Rightarrow> (Inl err, s)
                | Inr fileReferences \<Rightarrow>
                    and_then (in_module (u_generateEmbedding U (r_message req)) s)
                      (\<lambda>messageEmbedding s1.
                         let doc1 = doc\<lparr>messages := messages doc
                                       @ [user_message req messageEmbedding fileReferences]\<rparr>
                         in and_then (save sv 0 doc1 s1)
                              (\<lambda>_ s2. (Inr (Inr (doc1, fileReferences)),
                                        emit sv req (Processing (r_chatId req) ''started'' None) s2))))))"

text \<open>Line 63: the trigger of the summarizer.\<close>

definition shouldSummarize :: "nat \<Rightarrow> bool" where
  "shouldSummarize messageCount = (messageCount > 10 \<and> messageCount mod 10 = 0)"

text \<open>Lines 61-81: summarize the ten messages before the new one, push the summary
  with its message range, and save.\<close>

definition summarize_step :: "utils \<Rightarrow> services \<Rightarrow> chat \<Rightarrow> state \<Rightarrow> (error + chat) \<times> state" where
  "summarize_step U sv doc s =
     (if shouldSummarize (length (messages doc)) then
        (let messagesForSummary = slice_js (messages doc) (- 11) (- 1) in
         and_then (in_module (u_generateSummary U messagesForSummary) s)
           (\<lambda>sm s1.
              let doc1 = doc\<lparr>summaries := summaries doc
                            @ [\<lparr>s_text = sr_text sm, s_embedding = Some (sr_embedding sm),
                                messageRange = (int (length (messages doc)) - 11,
                                                int (length (messages doc)) - 1)\<rparr>]\<rparr>
              in and_then (save sv 1 doc1 s1) (\<lambda>_ s2. (Inr doc1, s2))))
      else (Inr doc, s))"

text \<open>Lines 83-109: the context retrieved from the referenced files.\<close>

definition allChunks :: "file_record list \<Rightarrow> chunk list" where
  "allChunks referencedFiles =
     concat (map (\<lambda>f. map (\<lambda>(t, em). \<lparr>c_text = t, c_embedding = em,
                                        c_fileName = Some (f_fileName f)\<rparr>) (f_chunks f))
               referencedFiles)"

definition from_file :: "scored_chunk \<Rightarrow> string" where
  "from_file c =
     ''[From '' @ (case c_fileName c of Some n \<Rightarrow> n | None \<Rightarrow> ''undefined'') @ '']: '' @ c_text c"

definition file_context ::
  "utils \<Rightarrow> services \<Rightarrow> request \<Rightarrow> (string \<times> string) list \<Rightarrow> state \<Rightarrow> (error + string) \<times> state" where
  "file_context U sv req fileReferences s =
     (if length fileReferences > 0 then
        (case find_files sv (map fst fileReferences) of
           Inl err \<Rightarrow> (Inl err, s)
         | Inr referencedFiles \<Rightarrow>
             if length (allChunks referencedFiles) > 0 then
               and_then
                 (in_module (u_findRelevantChunks U (r_message req)
                               (Some (allChunks referencedFiles)) 3) s)
                 (\<lambda>relevantFileChunks s1.
                    (Inr (join (newline @ newline) (map from_file relevantFileChunks)), s1))
             else (Inr [], s))
      else (Inr [], s))"

text \<open>Lines 114-124: the five messages before the new one, as the history of the chat
  session.\<close>

definition history :: "chat \<Rightarrow> (string \<times> string) list" where
  "history doc =
     map (\<lambda>msg. (if sender msg = ''user'' then ''user'' else ''model'', content msg))
       (slice_js (messages doc) (- 6) (- 1))"

text \<open>Lines 145-163: the prompt.\<close>

definition contextPrompt :: "string \<Rightarrow> string \<Rightarrow> string" where
  "contextPrompt fileContext relevantMessageContext =
     (if fileContext \<noteq> [] \<or> relevantMessageContext \<noteq> [] then
        ''[System] Prioritize (70%) this context over general knowledge:'' @ newline @ newline
        @ (if fileContext \<noteq> [] then ''FILE CONTEXT:'' @ newline @ fileContext @ newline @ newline
           else [])
        @ (if relevantMessageContext \<noteq> []
           then ''CONVERSATION CONTEXT:'' @ newline @ relevantMessageContext @ newline @ newline
           else [])
        @ ''Now answer the user'' @ [CHR 0x27]
        @ ''s query based on this context and your knowledge.'' @ newline @ newline
      else [])"

text \<open>Lines 170-183: the chunks of the stream, each forwarded to the socket and added to
  the reply; a chunk with no text is skipped.\<close>

fun consume_stream :: "services \<Rightarrow> request \<Rightarrow> string list \<Rightarrow> string \<Rightarrow> state \<Rightarrow> string \<times> state" where
  "consume_stream sv req [] aiReply s = (aiReply, s)"
| "consume_stream sv req (chunkText # rest) aiReply s =
     (if chunkText \<noteq> []
      then consume_stream sv req rest (aiReply @ chunkText)
             (emit sv req (MessageChunk (r_chatId req) chunkText) s)
      else consume_stream sv req rest aiReply s)"

definition stream_reply ::
  "services \<Rightarrow> request \<Rightarrow> (string \<times> string) list \<Rightarrow> string \<Rightarrow> state \<Rightarrow> (error + string) \<times> state" where
  "stream_reply sv req hist promptWithContext s =
     (case sendMessageStream sv hist promptWithContext of
        Inl err \<Rightarrow> (Inl err, s)
      | Inr (chunks, failure) \<Rightarrow>
          (case consume_stream sv req chunks [] s of
             (aiReply, s1) \<Rightarrow>
               (case failure of Some err \<Rightarrow> (Inl err, s1) | None \<Rightarrow> (Inr aiReply, s1))))"

text \<open>
  \<open>String.prototype.trim\<close> strips the white space and the line terminators of
  ECMAScript from both ends: U+0009 to U+000D, U+0020, U+00A0, U+FEFF, U+2028, U+2029 and
  the space separators above U+00FF. A character of the model is a code unit below 256,
  and of these the ones stripped are U+0009 to U+000D, the space, and the no-break space
  U+00A0.
\<close>

definition is_space :: "char \<Rightarrow> bool" where
  "is_space c =
     (c \<in> set [CHR 0x09, CHR 0x0A, CHR 0x0B, CHR 0x0C, CHR 0x0D, CHR 0x20, CHR 0xA0])"

definition trim :: "string \<Rightarrow> string" where
  "trim s = rev (dropWhile is_space (rev (dropWhile is_space s)))"

text \<open>Lines 196-211: the title of the first exchange. The generated title is cut at 50
  characters; when the generation fails, the title is the user message, cut at 30.\<close>

definition titlePrompt :: "string \<Rightarrow> string \<Rightarrow> string" where
  "titlePrompt msg aiReply =
     ''Based on this conversation, generate a very brief title (max 5 words):'' @ newline
     @ ''User: '' @ msg @ newline @ ''AI: '' @ aiReply"

definition generated_title :: "string \<Rightarrow> string" where
  "generated_title response_text =
     (let suggestedTitle = trim response_text
      in if length suggestedTitle > 50 then take 47 suggestedTitle @ ''...'' else suggestedTitle)"

definition fallback_title :: "string \<Rightarrow> string" where
  "fallback_title msg = (if length msg > 30 then take 27 msg @ ''...'' else msg)"

definition title_step :: "env \<Rightarrow> string \<Rightarrow> string \<Rightarrow> chat \<Rightarrow> world \<Rightarrow> chat \<times> world" where
  "title_step e msg aiReply doc w =
     (case generateContent_call e (titlePrompt msg aiReply) w of
        (Inr response_text, w1) \<Rightarrow> (doc\<lparr>title := generated_title response_text\<rparr>, w1)
      | (Inl titleErr, w1) \<Rightarrow> (doc\<lparr>title := fallback_title msg\<rparr>, w1))"

definition ai_message :: "string \<Rightarrow> real list \<Rightarrow> message" where
  "ai_message aiReply aiReplyEmbedding =
     \<lparr>sender = ''ai'', content = aiReply, m_embedding = Some aiReplyEmbedding, fileRefs = []\<rparr>"

text \<open>Lines 185-230: embed the reply, push it, set the title on the first message,
  save, signal completion and answer.\<close>

definition complete ::
  "utils \<Rightarrow> env \<Rightarrow> services \<Rightarrow> request \<Rightarrow> bool \<Rightarrow> chat \<Rightarrow> string \<Rightarrow> state
     \<Rightarrow> (error + response) \<times> state" where
  "complete U e sv req isFirstMessage doc aiReply s =
     and_then (in_module (u_generateEmbedding U aiReply) s)
       (\<lambda>aiReplyEmbedding s1.
          let doc1 = doc\<lparr>messages := messages doc @ [ai_message aiReply aiReplyEmbedding]\<rparr>;
              titled = (if isFirstMessage then title_step e (r_message req) aiReply doc1 (embed s1)
                        else (doc1, embed s1));
              doc2 = fst titled;
              s2 = s1\<lparr>embed := snd titled\<rparr>
          in and_then (save sv 2 doc2 s2)
               (\<lambda>_ s3. (Inr (Res200 aiReply (title doc2)),
                         emit sv req (Processing (r_chatId req) ''completed'' (Some (title doc2))) s3)))"

text \<open>Lines 61-230, once the user message is saved.\<close>

definition answer ::
  "utils \<Rightarrow> env \<Rightarrow> services \<Rightarrow> request \<Rightarrow> chat \<Rightarrow> (string \<times> string) list \<Rightarrow> state
     \<Rightarrow> (error + response) \<times> state" where
  "answer U e sv req doc fileReferences s =
     and_then (summarize_step U sv doc s)
       (\<lambda>doc1 s1.
          and_then (file_context U sv req fileReferences s1)
            (\<lambda>fileContext s2.
               and_then (in_module (getRelevantMessages U doc1 (r_message req)) s2)
                 (\<lambda>relevantMessageContext s3.
                    and_then
                      (stream_reply sv req (history doc1)
                         (contextPrompt fileContext relevantMessageContext @ r_message req) s3)
                      (complete U e sv req (length (messages doc) = 1) doc1))))"

text \<open>Lines 231-245: the handler. The error event carries \<open>err.message\<close>; the response
  carries the detail of the upstream response when there is one, else \<open>err.message\<close>.\<close>

definition error_detail :: "error \<Rightarrow> string" where
  "error_detail err =
     (case response_detail err of
        Some d \<Rightarrow> if d \<noteq> [] then d else message err
      | None \<Rightarrow> message err)"

definition sendMessage ::
  "utils \<Rightarrow> env \<Rightarrow> services \<Rightarrow> request \<Rightarrow> state \<Rightarrow> response \<times> state" where
  "sendMessage U e sv req s =
     (case and_then (receive U sv req s)
             (\<lambda>r s1. case r of
                        Inl res \<Rightarrow> (Inr res, s1)
                      | Inr (doc, fileReferences) \<Rightarrow> answer U e sv req doc fileReferences s1) of
        (Inr res, s1) \<Rightarrow> (res, s1)
      | (Inl err, s1) \<Rightarrow>
          (Res500 (error_detail err),
           emit sv req (ErrorEvent (r_chatId req) (message err)) s1))"

section \<open>Notions of the claims\<close>

text \<open>The dot product and the squared norm of the claim, over the indices of the first
  vector.\<close>

definition dot :: "real list \<Rightarrow> real list \<Rightarrow> real" where
  "dot a b = (\<Sum>i<length a. a ! i * b ! i)"

definition norm_sq :: "real list \<Rightarrow> real" where
  "norm_sq a = (\<Sum>i<length a. (a ! i)\<^sup>2)"


text \<open>Concrete collaborators and conversations, for the instances of the theorems: an
  environment whose capabilities answer, one whose capabilities are down, and a
  conversation of \<open>n\<close> alternating messages.\<close>

definition env_up :: env where
  "env_up =
     \<lparr>embedContent = (\<lambda>n t. Inr [1, 0]), generateContent = (\<lambda>n t. Inr ''Recap''),
      development = False, random = (\<lambda>n i. 0), defaultRetries = 0\<rparr>"

definition env_down :: env where
  "env_down =
     \<lparr>embedContent = (\<lambda>n t. Inl (Error ''unavailable'' None)),
      generateContent = (\<lambda>n t. Inl (Error ''unavailable'' None)),
      development = False, random = (\<lambda>n i. 0), defaultRetries = 0\<rparr>"

definition world0 :: world where
  "world0 = \<lparr>embeddingCache = [], ticks = 0\<rparr>"

definition message_no :: "nat \<Rightarrow> message" where
  "message_no n =
     \<lparr>sender = (if even n then ''user'' else ''ai''), content = ''turn'',
      m_embedding = Some [1, 0], fileRefs = []\<rparr>"

definition chat_of :: "nat \<Rightarrow> chat" where
  "chat_of n = \<lparr>messages = map message_no [0..<n], summaries = [], title = ''New Chat''\<rparr>"

definition services_up :: services where
  "services_up =
     \<lparr>findOne_error = None, find_refs = (\<lambda>ids. Inr []), find_files = (\<lambda>ids. Inr []),
      save_error = (\<lambda>k. None), io = True,
      sendMessageStream = (\<lambda>h p. Inr ([''Hi'', '''', '' there''], None))\<rparr>"

definition state_of :: "chat \<Rightarrow> state" where
  "state_of doc = \<lparr>persisted = Some doc, emitted = [], embed = world0\<rparr>"

text \<open>A sequence of \<open>generateEmbedding\<close> calls, one text after the other, keeping the
  module state.\<close>

definition embed_all ::
  "(string \<Rightarrow> world \<Rightarrow> (error + real list) \<times> world) \<Rightarrow> string list \<Rightarrow> world \<Rightarrow> world" where
  "embed_all gen ts w = fold (\<lambda>t w1. snd (gen t w1)) ts w"

text \<open>1001 texts with distinct prefixes: \<open>text_no n\<close> is \<open>n div 40\<close> times the letter a and
  then \<open>n mod 40 + 1\<close> times the letter b.\<close>

definition text_no :: "nat \<Rightarrow> string" where
  "text_no n = replicate (n div 40) (CHR ''a'') @ replicate (Suc (n mod 40)) (CHR ''b'')"

text \<open>The real number a finite JavaScript number stands for.\<close>

definition num_of :: "js_number \<Rightarrow> real" where
  "num_of v = (case v of Num r \<Rightarrow> r | _ \<Rightarrow> 0)"

definition is_num :: "js_number \<Rightarrow> bool" where
  "is_num v = (case v of Num r \<Rightarrow> True | _ \<Rightarrow> False)"

text \<open>An environment whose embedding provider fails on the text b alone, and one whose
  embedding provider is down while the generation answers.\<close>

definition env_flaky :: env where
  "env_flaky =
     env_up\<lparr>embedContent :=
       (\<lambda>n t. if t = ''b'' then Inl (Error ''unavailable'' None) else Inr [1, 0])\<rparr>"

definition env_embed_down :: env where
  "env_embed_down = env_up\<lparr>embedContent := (\<lambda>n t. Inl (Error ''unavailable'' None))\<rparr>"

text \<open>What the batch emits for one chunk: the embedding \<open>gen\<close> returns for it in the
  state \<open>w\<close>, or the empty embedding when \<open>gen\<close> rejects.\<close>

definition embedded_or_empty ::
  "(string \<Rightarrow> world \<Rightarrow> (error + real list) \<times> world) \<Rightarrow> string \<Rightarrow> world \<Rightarrow> chunk" where
  "embedded_or_empty gen c w =
     \<lparr>c_text = c,
      c_embedding = Some (case fst (gen c w) of Inr v \<Rightarrow> v | Inl err \<Rightarrow> []),
      c_fileName = None\<rparr>"

text \<open>A first message, a title generation that is down, and a streaming call that
  fails with an upstream detail.\<close>

definition req_hello :: request where
  "req_hello = \<lparr>r_message = ''Hello'', r_fileIds = None, r_chatId = ''c1'', r_userId = ''u1''\<rparr>"

definition env_title_down :: env where
  "env_title_down = env_up\<lparr>generateContent := (\<lambda>n t. Inl (Error ''unavailable'' None))\<rparr>"

definition services_stream_down :: services where
  "services_stream_down =
     services_up\<lparr>sendMessageStream :=
       (\<lambda>h p. Inl (Error ''Request failed with status code 429'' (Some ''quota exceeded'')))\<rparr>"

text \<open>The persisted conversation holds the messages \<open>msgs\<close>, in this order, at its
  start.\<close>

definition keeps :: "message list \<Rightarrow> state \<Rightarrow> bool" where
  "keeps msgs s = (case persisted s of None \<Rightarrow> False | Some d \<Rightarrow> prefix msgs (messages d))"

text \<open>The streaming call fails: it rejects, or its stream ends in an error.\<close>

definition stream_fails :: "services \<Rightarrow> bool" where
  "stream_fails sv =
     (\<forall>h p. case sendMessageStream sv h p of
               Inl err \<Rightarrow> True
             | Inr (chunks, failure) \<Rightarrow> failure \<noteq> None)"

text \<open>A message and a summary as retrieval candidates: the text with its embedding.\<close>

definition message_candidate :: "message \<Rightarrow> chunk" where
  "message_candidate msg =
     \<lparr>c_text = content msg, c_embedding = m_embedding msg, c_fileName = None\<rparr>"

definition summary_candidate :: "summary \<Rightarrow> chunk" where
  "summary_candidate sm = \<lparr>c_text = s_text sm, c_embedding = s_embedding sm, c_fileName = None\<rparr>"

text \<open>A conversation of six messages without embeddings, with one summary.\<close>

definition chat_unembedded :: chat where
  "chat_unembedded =
     \<lparr>messages = replicate 6 \<lparr>sender = ''user'', content = ''old'', m_embedding = None,
                               fileRefs = []\<rparr>,
      summaries = [\<lparr>s_text = ''Recap'', s_embedding = Some [1, 0], messageRange = (0, 10)\<rparr>],
      title = ''New Chat''\<rparr>"



text \<open>A conversation of three completed exchanges, a to f, and the user message g just
  appended; every message with its embedding. And the same conversation with the
  embedding of its first message empty.\<close>

definition turn :: "string \<Rightarrow> string \<Rightarrow> real list \<Rightarrow> message" where
  "turn who txt emb = \<lparr>sender = who, content = txt, m_embedding = Some emb, fileRefs = []\<rparr>"

definition chat_seven :: chat where
  "chat_seven =
     \<lparr>messages = [turn ''user'' ''a'' [1, 0], turn ''ai'' ''b'' [1, 0], turn ''user'' ''c'' [1, 0],
                  turn ''ai'' ''d'' [1, 0], turn ''user'' ''e'' [1, 0], turn ''ai'' ''f'' [1, 0],
                  turn ''user'' ''g'' [1, 0]],
      summaries = [], title = ''Letters''\<rparr>"

definition chat_seven_gap :: chat where
  "chat_seven_gap =
     chat_seven\<lparr>messages := turn ''user'' ''a'' [] # tl (messages chat_seven)\<rparr>"

text \<open>The candidates of the claim: of the messages before the one just appended, those
  older than the five most recent, with a non-empty embedding.\<close>

definition claimed_candidates :: "chat \<Rightarrow> message list" where
  "claimed_candidates doc =
     (let earlier = butlast (messages doc)
      in filter (\<lambda>msg. case m_embedding msg of None \<Rightarrow> False | Some v \<Rightarrow> v \<noteq> [])
           (take (length earlier - 5) earlier))"

text \<open>The request fails with the error \<open>err\<close>: the response is the 500 with the detail
  of that error (the detail of its upstream response when it has one that is not empty,
  else its message) and, when the socket server is set, the last event emitted is the
  error event with the message of that error.\<close>

definition fails_with :: "services \<Rightarrow> request \<Rightarrow> error \<Rightarrow> response \<Rightarrow> state \<Rightarrow> bool" where
  "fails_with sv req err res s' =
     (res = Res500 (case response_detail err of
                      Some detail \<Rightarrow> if detail = [] then message err else detail
                    | None \<Rightarrow> message err)
      \<and> (io sv \<longrightarrow> emitted s' \<noteq> []
            \<and> last (emitted s') = (r_userId req, ErrorEvent (r_chatId req) (message err))))"

text \<open>A message that refers to a file, and a database that resolves the reference and
  then fails on the query for the file itself.\<close>

definition req_file :: request where
  "req_file =
     \<lparr>r_message = ''Hello'', r_fileIds = Some [''f1''], r_chatId = ''c1'', r_userId = ''u1''\<rparr>"

definition services_files_down :: services where
  "services_files_down =
     services_up\<lparr>find_refs := (\<lambda>ids. Inr [(''f1'', ''notes.txt'')]),
                 find_files := (\<lambda>ids. Inl (Error ''database unavailable'' None))\<rparr>"

text \<open>A database whose last save fails.\<close>

definition services_save_down :: services where
  "services_save_down =
     services_up\<lparr>save_error := (\<lambda>k. if k = 2 then Some (Error ''write failed'' None) else None)\<rparr>"

section \<open>Verification: cosine similarity\<close>

lemma cs_step:
  fixes D A B x y :: real
  assumes "D\<^sup>2 \<le> A * B" "0 \<le> A" "0 \<le> B"
  shows "(D + x * y)\<^sup>2 \<le> (A + x\<^sup>2) * (B + y\<^sup>2)"
proof -
  have nn: "0 \<le> A * y\<^sup>2 + B * x\<^sup>2" using assms by simp
  have "(2 * D * x * y)\<^sup>2 = 4 * D\<^sup>2 * (x\<^sup>2 * y\<^sup>2)" by (simp add: power2_eq_square)
  also have "\<dots> \<le> 4 * (A * B) * (x\<^sup>2 * y\<^sup>2)"
    using assms(1) by (intro mult_right_mono mult_left_mono) auto
  also have "\<dots> \<le> (A * y\<^sup>2 + B * x\<^sup>2)\<^sup>2"
  proof -
    have "0 \<le> (A * y\<^sup>2 - B * x\<^sup>2)\<^sup>2" by simp
    then show ?thesis by (simp add: power2_eq_square algebra_simps)
  qed
  finally have "2 * D * x * y \<le> A * y\<^sup>2 + B * x\<^sup>2"
    using nn by (meson abs_le_square_iff abs_of_nonneg order_trans abs_ge_self power2_le_imp_le)
  then show ?thesis
    by (simp add: power2_eq_square algebra_simps) (use assms(1) in \<open>simp add: power2_eq_square\<close>)
qed

lemma cs_sum:
  fixes f g :: "nat \<Rightarrow> real"
  shows "(\<Sum>i<n. f i * g i)\<^sup>2 \<le> (\<Sum>i<n. (f i)\<^sup>2) * (\<Sum>i<n. (g i)\<^sup>2)"
proof (induction n)
  case 0
  then show ?case by simp
next
  case (Suc n)
  have "0 \<le> (\<Sum>i<n. (f i)\<^sup>2)" "0 \<le> (\<Sum>i<n. (g i)\<^sup>2)" by (simp_all add: sum_nonneg)
  from cs_step [OF Suc.IH this] show ?case by simp
qed

lemma dot_le_norms: "length a = length b \<Longrightarrow> (dot a b)\<^sup>2 \<le> norm_sq a * norm_sq b"
  unfolding dot_def norm_sq_def using cs_sum [of "\<lambda>i. a ! i" "\<lambda>i. b ! i" "length a"] by simp

lemma norm_sq_nonneg: "0 \<le> norm_sq a"
  by (simp add: norm_sq_def sum_nonneg)

lemma dot_commute: "length a = length b \<Longrightarrow> dot a b = dot b a"
  by (simp add: dot_def mult.commute)

lemma cos_bound:
  fixes D A B :: real
  assumes "D\<^sup>2 \<le> A * B" "0 < A" "0 < B"
  shows "\<bar>D / (sqrt A * sqrt B)\<bar> \<le> 1"
proof -
  have "\<bar>D\<bar> = sqrt (D\<^sup>2)" by simp
  also have "\<dots> \<le> sqrt (A * B)" using assms(1) by (rule real_sqrt_le_mono)
  also have "\<dots> = sqrt A * sqrt B" by (rule real_sqrt_mult)
  finally have "\<bar>D\<bar> \<le> sqrt A * sqrt B" .
  moreover have "0 < sqrt A * sqrt B" using assms by simp
  ultimately show ?thesis by (simp add: abs_divide abs_of_pos)
qed

lemma cosine_loop_prefix:
  assumes "k \<le> length a" "length a = length b"
  shows "fold (cosine_step a b) [0..<k] (Num 0, Num 0, Num 0) =
    (Num (\<Sum>i<k. a ! i * b ! i), Num (\<Sum>i<k. (a ! i)\<^sup>2), Num (\<Sum>i<k. (b ! i)\<^sup>2))"
  using assms
  by (induction k) (simp_all add: cosine_step_def js_index_def power2_eq_square)

lemma cosine_loop_eq:
  "length a = length b \<Longrightarrow> cosine_loop a b = (Num (dot a b), Num (norm_sq a), Num (norm_sq b))"
  unfolding cosine_loop_def dot_def norm_sq_def
  using cosine_loop_prefix [of "length a" a b] by simp

text \<open>
  The later copy has the guards of the claim: 0 on a missing, empty, mismatched or
  zero-norm vector, whatever the numbers. Otherwise, in exact arithmetic, its value is
  dot / (norm * norm), which lies in [-1, 1], and it is symmetric. The range is a fact
  of the real numbers: in doubles the quotient of a vector with itself can exceed 1 by
  a rounding error, and components whose squares overflow give NaN.
\<close>

lemma cosineSimilarity_v2_missing:
  "cosineSimilarity_v2 None vecB = Num 0" "cosineSimilarity_v2 vecA None = Num 0"
  by (simp_all add: cosineSimilarity_v2_def split: option.splits)

lemma cosineSimilarity_v2_degenerate:
  assumes "length a \<noteq> length b \<or> a = [] \<or> b = [] \<or> norm_sq a = 0 \<or> norm_sq b = 0"
  shows "cosineSimilarity_v2 (Some a) (Some b) = Num 0"
proof (cases "length a = length b")
  case True
  with assms show ?thesis
    by (auto simp: cosineSimilarity_v2_def cosine_loop_eq)
next
  case False
  then show ?thesis by (simp add: cosineSimilarity_v2_def)
qed

lemma cosineSimilarity_v2_value:
  assumes "length a = length b" "a \<noteq> []" "norm_sq a \<noteq> 0" "norm_sq b \<noteq> 0"
  shows "cosineSimilarity_v2 (Some a) (Some b) = Num (dot a b / (sqrt (norm_sq a) * sqrt (norm_sq b)))"
    and "\<bar>dot a b / (sqrt (norm_sq a) * sqrt (norm_sq b))\<bar> \<le> 1"
proof -
  have pos: "0 < norm_sq a" "0 < norm_sq b"
    using assms(3,4) norm_sq_nonneg [of a] norm_sq_nonneg [of b] by simp_all
  then have "sqrt (norm_sq a) * sqrt (norm_sq b) \<noteq> 0" by simp
  with assms pos show "cosineSimilarity_v2 (Some a) (Some b)
      = Num (dot a b / (sqrt (norm_sq a) * sqrt (norm_sq b)))"
    by (auto simp: cosineSimilarity_v2_def cosine_loop_eq)
  show "\<bar>dot a b / (sqrt (norm_sq a) * sqrt (norm_sq b))\<bar> \<le> 1"
    using cos_bound [OF dot_le_norms [OF assms(1)] pos] .
qed

lemma cosineSimilarity_v2_finite: "\<exists>r. cosineSimilarity_v2 vecA vecB = Num r \<and> \<bar>r\<bar> \<le> 1"
proof (cases vecA)
  case None
  then show ?thesis by (simp add: cosineSimilarity_v2_missing)
next
  case (Some a)
  note A = this
  show ?thesis
  proof (cases vecB)
    case None
    then show ?thesis by (simp add: cosineSimilarity_v2_missing)
  next
    case (Some b)
    show ?thesis
    proof (cases "length a = length b \<and> a \<noteq> [] \<and> norm_sq a \<noteq> 0 \<and> norm_sq b \<noteq> 0")
      case True
      then show ?thesis using cosineSimilarity_v2_value [of a b] A Some by simp
    next
      case False
      then have "cosineSimilarity_v2 (Some a) (Some b) = Num 0"
        by (intro cosineSimilarity_v2_degenerate) auto
      then show ?thesis using A Some by simp
    qed
  qed
qed

lemma cosineSimilarity_v2_symmetric: "cosineSimilarity_v2 vecA vecB = cosineSimilarity_v2 vecB vecA"
proof (cases vecA)
  case None
  then show ?thesis by (simp add: cosineSimilarity_v2_missing)
next
  case (Some a)
  note A = this
  show ?thesis
  proof (cases vecB)
    case None
    then show ?thesis by (simp add: cosineSimilarity_v2_missing)
  next
    case (Some b)
    show ?thesis
    proof (cases "length a = length b")
      case True
      then show ?thesis
        using A Some by (auto simp: cosineSimilarity_v2_def cosine_loop_eq dot_commute mult.commute)
    next
      case False
      then show ?thesis using A Some by (auto simp: cosineSimilarity_v2_def)
    qed
  qed
qed

lemma cosineSimilarity_v2_guarded:
  "cosineSimilarity_v2 (Some [1]) (Some [1, 0]) = Num 0"
  "cosineSimilarity_v2 (Some []) (Some []) = Num 0"
  by (simp_all add: cosineSimilarity_v2_def)

text \<open>
  C2: \<open>cosineSimilarity\<close> returns exactly 0 whenever the vectors are of unequal length or
  empty. The copy of src/utils/embedding-utils.js has none of the guards: on the vectors
  [1] and [1, 0] it returns 1, and on two empty vectors it returns NaN.
\<close>

theorem cosineSimilarity_v1_no_guard:
  "cosineSimilarity_v1 (Some [1]) (Some [1, 0]) = Inr (Num 1)
   \<and> cosineSimilarity_v1 (Some []) (Some []) = Inr NaN"
  by (simp add: cosineSimilarity_v1_def cosine_loop_def cosine_step_def js_index_def)

section \<open>Verification: the retriever\<close>

lemma is_num_iff: "is_num v \<longleftrightarrow> (\<exists>r. v = Num r)"
  by (cases v) (simp_all add: is_num_def)

lemma score_chunk_v2_num: "is_num (score (score_chunk_v2 q c))"
proof -
  obtain r where "cosineSimilarity_v2 (Some q) (c_embedding c) = Num r"
    using cosineSimilarity_v2_finite by blast
  then show ?thesis
    by (simp add: score_chunk_v2_def with_score_def lengthBonus_def is_num_def)
qed

lemma score_chunk_v2_fields:
  "c_text (score_chunk_v2 q c) = c_text c"
  "c_embedding (score_chunk_v2 q c) = c_embedding c"
  "c_fileName (score_chunk_v2 q c) = c_fileName c"
  by (simp_all add: score_chunk_v2_def with_score_def)

lemma by_score_desc_num:
  "is_num (score a) \<Longrightarrow> is_num (score b) \<Longrightarrow>
     by_score_desc a b \<longleftrightarrow> num_of (score a) < num_of (score b)"
  by (auto simp: is_num_iff by_score_desc_def js_sub_def num_of_def)

lemma insert_js_insort:
  assumes "is_num (score x)" "\<forall>y\<in>set ys. is_num (score y)"
  shows "insert_js by_score_desc x ys = insort_key (\<lambda>c. - num_of (score c)) x ys"
  using assms by (induction ys) (auto simp: by_score_desc_num)

lemma sort_js_sort_key:
  assumes "\<forall>y\<in>set xs. is_num (score y)"
  shows "sort_js by_score_desc xs = sort_key (\<lambda>c. - num_of (score c)) xs"
  using assms
proof (induction xs)
  case Nil
  then show ?case by (simp add: sort_js_def)
next
  case (Cons x xs)
  then have "sort_js by_score_desc xs = sort_key (\<lambda>c. - num_of (score c)) xs" by simp
  moreover have "\<forall>y\<in>set (sort_key (\<lambda>c. - num_of (score c)) xs). is_num (score y)"
    using Cons.prems by simp
  ultimately show ?case
    using Cons.prems insert_js_insort [of x "sort_key (\<lambda>c. - num_of (score c)) xs"]
    by (simp add: sort_js_def)
qed

lemma slice_js_from_0: "0 \<le> count \<Longrightarrow> slice_js xs 0 count = take (nat count) xs"
  by (simp add: slice_js_def Let_def min_def)

lemma sorted_desc_take:
  "sorted (map (\<lambda>c. - num_of (score c)) xs) \<Longrightarrow>
     sorted_wrt (\<lambda>a b. num_of (score b) \<le> num_of (score a)) (take n xs)"
proof -
  assume "sorted (map (\<lambda>c. - num_of (score c)) xs)"
  then have "sorted_wrt (\<lambda>a b. num_of (score b) \<le> num_of (score a)) xs"
    by (simp add: sorted_map)
  then show ?thesis by (rule sorted_wrt_take)
qed

text \<open>
  The later copy does what C1 says. It never rejects; for a count that is not negative
  the result has at most \<open>count\<close> elements; every element is a candidate with a
  non-empty embedding, with its score added; and with no such candidate the result is
  empty. In exact arithmetic the scores are finite numbers, in non-increasing order (the
  order rests on the scores being numbers, which the guards of the cosine give for the
  reals; a score that is NaN in doubles is outside this statement).
\<close>

lemma findRelevantChunks_v2_returns: "\<exists>r. fst (findRelevantChunks_v2 e q cs count w) = Inr r"
  by (auto simp: findRelevantChunks_v2_def Let_def split: option.splits prod.splits sum.splits)

lemma findRelevantChunks_v2_shape:
  assumes "fst (findRelevantChunks_v2 e q (Some cs) count w) = Inr r"
  shows "r = [] \<or> (\<exists>qe. r = slice_js (sort_key (\<lambda>c. - num_of (score c))
                 (map (score_chunk_v2 qe) (filter has_embedding cs))) 0 count)"
proof -
  have "sort_js by_score_desc (map (score_chunk_v2 qe) (filter has_embedding cs))
      = sort_key (\<lambda>c. - num_of (score c)) (map (score_chunk_v2 qe) (filter has_embedding cs))" for qe
    by (rule sort_js_sort_key) (simp add: score_chunk_v2_num)
  then show ?thesis
    using assms
    by (auto simp: findRelevantChunks_v2_def Let_def split: if_splits prod.splits sum.splits)
qed

lemma findRelevantChunks_v2_empty:
  assumes "cs = None \<or> cs = Some [] \<or> (\<exists>xs. cs = Some xs \<and> filter has_embedding xs = [])"
  shows "fst (findRelevantChunks_v2 e q cs count w) = Inr []"
  using assms
  by (auto simp: findRelevantChunks_v2_def Let_def split: option.splits prod.splits sum.splits)

lemma findRelevantChunks_v2_spec:
  assumes "fst (findRelevantChunks_v2 e q (Some cs) count w) = Inr r" and "0 \<le> count"
  shows "length r \<le> nat count"
    and "sorted_wrt (\<lambda>a b. num_of (score b) \<le> num_of (score a)) r"
    and "\<forall>c\<in>set r. is_num (score c)"
    and "\<forall>c\<in>set r. \<exists>c0\<in>set cs. has_embedding c0 \<and> c_text c = c_text c0
            \<and> c_embedding c = c_embedding c0 \<and> c_fileName c = c_fileName c0"
proof -
  consider "r = []"
    | qe where "r = take (nat count) (sort_key (\<lambda>c. - num_of (score c))
                 (map (score_chunk_v2 qe) (filter has_embedding cs)))"
    using findRelevantChunks_v2_shape [OF assms(1)] slice_js_from_0 [OF assms(2)] by auto
  note cases = this
  show "length r \<le> nat count" by (cases rule: cases) simp_all
  show "sorted_wrt (\<lambda>a b. num_of (score b) \<le> num_of (score a)) r"
    by (cases rule: cases) (simp_all add: sorted_desc_take)
  show "\<forall>c\<in>set r. is_num (score c)"
  proof (cases rule: cases)
    case 1
    then show ?thesis by simp
  next
    case (2 qe)
    then show ?thesis by (auto dest!: in_set_takeD simp: score_chunk_v2_num)
  qed
  show "\<forall>c\<in>set r. \<exists>c0\<in>set cs. has_embedding c0 \<and> c_text c = c_text c0
            \<and> c_embedding c = c_embedding c0 \<and> c_fileName c = c_fileName c0"
  proof (cases rule: cases)
    case 1
    then show ?thesis by simp
  next
    case (2 qe)
    then show ?thesis by (fastforce dest!: in_set_takeD simp: score_chunk_v2_fields)
  qed
qed

text \<open>
  C1: an empty candidate set yields the empty sequence, never an error, and candidates
  with an empty embedding are filtered out. The copy of src/utils/embedding-utils.js
  embeds the query before it looks at the candidates and throws again from its handler:
  with no candidates and the embedding provider down it rejects. It has no filter: a
  candidate with an empty embedding is returned, with the score NaN.
\<close>

theorem findRelevantChunks_v1_rejects:
  "fst (findRelevantChunks_v1 env_down ''query'' (Some []) 3 world0)
     = Inl (Error ''Failed to find relevant chunks'' None)
   \<and> fst (findRelevantChunks_v1 env_up ''query''
            (Some [\<lparr>c_text = ''abc'', c_embedding = Some [], c_fileName = None\<rparr>]) 3 world0)
     = Inr [\<lparr>c_text = ''abc'', c_embedding = Some [], c_fileName = None, score = NaN\<rparr>]"
  by (simp add: findRelevantChunks_v1_def generateEmbedding_v1_def embedContent_call_def
      env_down_def env_up_def world0_def cache_store_def cosineSimilarity_v1_def cosine_loop_def
      cosine_step_def js_index_def with_score_def lengthBonus_def sort_js_def slice_js_def)

lemma findRelevantChunks_v2_same_inputs:
  "fst (findRelevantChunks_v2 env_down ''query'' (Some []) 3 world0) = Inr []"
  "fst (findRelevantChunks_v2 env_up ''query''
            (Some [\<lparr>c_text = ''abc'', c_embedding = Some [], c_fileName = None\<rparr>]) 3 world0)
     = Inr []"
  by (simp_all add: findRelevantChunks_v2_empty has_embedding_def)

section \<open>Verification: batch embedding\<close>

lemma embed_all_Cons: "embed_all gen (c # cs) w = embed_all gen cs (snd (gen c w))"
  by (simp add: embed_all_def)

lemma generateChunkEmbeddings_loop_v2_eq:
  "generateChunkEmbeddings_loop_v2 e cs acc w =
     (Inr (acc @ map (\<lambda>i. embedded_or_empty (generateEmbedding_v2 e) (cs ! i)
                            (embed_all (generateEmbedding_v2 e) (take i cs) w)) [0..<length cs]),
      embed_all (generateEmbedding_v2 e) cs w)"
proof (induction cs arbitrary: acc w)
  case Nil
  then show ?case by (simp add: embed_all_def)
next
  case (Cons c cs)
  obtain r w1 where call: "generateEmbedding_v2 e c w = (r, w1)"
    by (cases "generateEmbedding_v2 e c w")
  have idx: "[0..<length (c # cs)] = 0 # map Suc [0..<length cs]"
    by (simp add: upt_conv_Cons map_Suc_upt del: upt_Suc)
  have first: "embedded_or_empty (generateEmbedding_v2 e) c w
      = \<lparr>c_text = c, c_embedding = Some (case r of Inr v \<Rightarrow> v | Inl err \<Rightarrow> []), c_fileName = None\<rparr>"
    using call by (simp add: embedded_or_empty_def)
  show ?case
    unfolding idx
    using call first Cons.IH [of _ w1]
    by (cases r) (simp_all add: embed_all_Cons embed_all_def comp_def)
qed

text \<open>
  The later copy does what C3 says: the batch never rejects, it emits one chunk per
  input chunk, in input order and with the input text, and the chunk whose embedding
  fails is emitted with the empty embedding.
\<close>

lemma generateChunkEmbeddings_v2_spec:
  "\<exists>r. fst (generateChunkEmbeddings_v2 e cs w) = Inr r
       \<and> length r = length cs
       \<and> map c_text r = cs
       \<and> (\<forall>i<length cs. r ! i = embedded_or_empty (generateEmbedding_v2 e) (cs ! i)
                                   (embed_all (generateEmbedding_v2 e) (take i cs) w))"
  by (simp add: generateChunkEmbeddings_v2_def generateChunkEmbeddings_loop_v2_eq
      embedded_or_empty_def comp_def map_nth)

text \<open>
  C3: a failure to embed one chunk is isolated, the chunk being emitted with an empty
  embedding, and never aborts the batch. The copy of src/utils/embedding-utils.js has no
  handler in the loop: when the provider fails on the second of three chunks the whole
  batch rejects, and the chunk already embedded is lost with it.
\<close>

theorem generateChunkEmbeddings_v1_aborts:
  "fst (generateChunkEmbeddings_v1 env_flaky [''a'', ''b'', ''c''] world0)
     = Inl (Error ''Failed to generate embedding'' None)"
  by (simp add: generateChunkEmbeddings_v1_def generateEmbedding_v1_def embedContent_call_def
      env_flaky_def env_up_def world0_def cache_store_def)

lemma generateChunkEmbeddings_v2_same_input:
  "fst (generateChunkEmbeddings_v2 env_flaky [''a'', ''b'', ''c''] world0)
     = Inr [\<lparr>c_text = ''a'', c_embedding = Some [1, 0], c_fileName = None\<rparr>,
            \<lparr>c_text = ''b'', c_embedding = Some [], c_fileName = None\<rparr>,
            \<lparr>c_text = ''c'', c_embedding = Some [1, 0], c_fileName = None\<rparr>]"
  by (simp add: generateChunkEmbeddings_v2_def generateEmbedding_v2_def embedContent_call_def
      env_flaky_def env_up_def world0_def cache_store_def numeral_2_eq_2)

section \<open>Verification: the summarizer\<close>

text \<open>
  The later copy does what C4 says: it never rejects; when the generation fails for
  good it returns the fallback text with an empty embedding; when the generation
  succeeds and the embedding fails it returns the generated text with an empty
  embedding.
\<close>

lemma generateSummary_v2_returns: "\<exists>sm. fst (generateSummary_v2 e msgs w) = Inr sm"
  by (auto simp: generateSummary_v2_def split: prod.splits sum.splits)

lemma generateSummary_v2_fallback:
  assumes "fst (withRetry (defaultRetries e) (generateContent_call e (summary_prompt msgs)) w) = Inl err"
  shows "fst (generateSummary_v2 e msgs w)
           = Inr \<lparr>sr_text = ''Previous conversation covered various topics.'', sr_embedding = []\<rparr>"
  using assms by (auto simp: generateSummary_v2_def split: prod.splits sum.splits)

lemma generateSummary_v2_generated:
  assumes "withRetry (defaultRetries e) (generateContent_call e (summary_prompt msgs)) w = (Inr t, w1)"
  shows "fst (generateSummary_v2 e msgs w)
           = Inr \<lparr>sr_text = t,
                  sr_embedding = (case fst (generateEmbedding_v2 e t w1) of
                                    Inr v \<Rightarrow> v | Inl err \<Rightarrow> [])\<rparr>"
  using assms by (auto simp: generateSummary_v2_def split: prod.splits sum.splits)

text \<open>
  C4: the summarizer never raises to its caller. The copy of
  src/utils/embedding-utils.js throws again from its handler: it rejects when the
  generation fails, and it rejects when the generation succeeds and the embedding of the
  summary fails.
\<close>

theorem generateSummary_v1_raises:
  "fst (generateSummary_v1 env_down (map message_no [0..<10]) world0)
     = Inl (Error ''Failed to generate summary'' None)
   \<and> fst (generateSummary_v1 env_embed_down (map message_no [0..<10]) world0)
     = Inl (Error ''Failed to generate summary'' None)"
  by (simp add: generateSummary_v1_def generateContent_call_def generateEmbedding_v1_def
      embedContent_call_def env_down_def env_embed_down_def env_up_def world0_def)

lemma generateSummary_v2_same_inputs:
  "fst (generateSummary_v2 env_down (map message_no [0..<10]) world0)
     = Inr \<lparr>sr_text = ''Previous conversation covered various topics.'', sr_embedding = []\<rparr>"
  "fst (generateSummary_v2 env_embed_down (map message_no [0..<10]) world0)
     = Inr \<lparr>sr_text = ''Recap'', sr_embedding = []\<rparr>"
  by (simp_all add: generateSummary_v2_def generateContent_call_def generateEmbedding_v2_def
      embedContent_call_def env_down_def env_embed_down_def env_up_def world0_def numeral_2_eq_2)

text \<open>
  In \<open>sendMessage\<close> the difference decides the request. On a conversation of 20
  messages with the generation down, the summarization step rejects with the first copy
  of the module, and appends the fallback summary with the second.
\<close>

lemma summarize_step_v1_rejects:
  "fst (summarize_step (utils_v1 env_down) services_up (chat_of 20) (state_of (chat_of 20)))
     = Inl (Error ''Failed to generate summary'' None)"
  by (simp add: summarize_step_def shouldSummarize_def chat_of_def and_then_def in_module_def
      utils_v1_def generateSummary_v1_def generateContent_call_def env_down_def state_of_def
      world0_def)

lemma summarize_step_v2_degrades:
  "map s_text (summaries (case fst (summarize_step (utils_v2 env_down) services_up (chat_of 20)
                                      (state_of (chat_of 20))) of
                            Inr d \<Rightarrow> d | Inl err \<Rightarrow> chat_of 20))
     = [''Previous conversation covered various topics.'']"
  by (simp add: summarize_step_def shouldSummarize_def chat_of_def and_then_def in_module_def
      utils_v2_def generateSummary_v2_def generateContent_call_def env_down_def state_of_def
      world0_def save_def services_up_def Let_def)

section \<open>Verification: the embedding cache\<close>

lemma update_fresh: "k \<notin> fst ` set al \<Longrightarrow> AList.update k v al = al @ [(k, v)]"
  by (induction al) auto

lemma length_update_le: "length (AList.update k v al) \<le> Suc (length al)"
  by (induction al) auto

lemma length_delete_head: "length (AList.delete k ((k, v) # al)) \<le> length al"
  by (simp add: AList.delete_eq)

lemma delete_head_distinct:
  "k \<notin> fst ` set al \<Longrightarrow> AList.delete k ((k, v) # al) = al"
  by (simp add: AList.delete_eq filter_id_conv) (auto simp: image_iff)

lemma cache_store_bounded:
  assumes "length (embeddingCache w) \<le> 1000"
  shows "length (embeddingCache (cache_store k v w)) \<le> 1000"
proof (cases "AList.update k v (embeddingCache w)")
  case Nil
  then show ?thesis by (simp add: cache_store_def Let_def)
next
  case (Cons p rest)
  obtain k0 v0 where p: "p = (k0, v0)" by (cases p)
  have "length (p # rest) \<le> 1001"
    using length_update_le [of k v "embeddingCache w"] assms Cons by simp
  then have "length rest \<le> 1000" by simp
  moreover have "length (AList.delete k0 ((k0, v0) # rest)) \<le> length rest"
    by (rule length_delete_head)
  ultimately show ?thesis using Cons p by (simp add: cache_store_def Let_def)
qed

lemma withRetry_cache:
  assumes "\<And>w. embeddingCache (snd (fn w)) = embeddingCache w"
  shows "embeddingCache (snd (withRetry n fn w)) = embeddingCache w"
proof (induction n arbitrary: w)
  case 0
  then show ?case by (simp add: assms)
next
  case (Suc n)
  show ?case
  proof (cases "fn w")
    case (Pair r w1)
    then have "embeddingCache w1 = embeddingCache w" using assms [of w] by simp
    then show ?thesis using Pair Suc.IH [of w1] by (cases r) simp_all
  qed
qed

lemma embedContent_call_cache: "embeddingCache (snd (embedContent_call e t w)) = embeddingCache w"
  by (simp add: embedContent_call_def)

lemma generateEmbedding_v1_bounded:
  assumes "length (embeddingCache w) \<le> 1000"
  shows "length (embeddingCache (snd (generateEmbedding_v1 e t w))) \<le> 1000"
proof (cases "map_of (embeddingCache w) (take 100 t)")
  case (Some v)
  then show ?thesis using assms by (simp add: generateEmbedding_v1_def)
next
  case None
  obtain r w1 where call: "embedContent_call e t w = (r, w1)" by (cases "embedContent_call e t w")
  then have same: "embeddingCache w1 = embeddingCache w"
    using embedContent_call_cache [of e t w] by simp
  show ?thesis
  proof (cases r)
    case (Inl err)
    then show ?thesis using None call same assms by (simp add: generateEmbedding_v1_def)
  next
    case (Inr v)
    then show ?thesis
      using None call same assms cache_store_bounded [of w1 "take 100 t" v]
      by (simp add: generateEmbedding_v1_def)
  qed
qed

lemma generateEmbedding_v2_bounded:
  assumes "length (embeddingCache w) \<le> 1000"
  shows "length (embeddingCache (snd (generateEmbedding_v2 e t w))) \<le> 1000"
proof (cases "map_of (embeddingCache w) (take 100 t)")
  case (Some v)
  then show ?thesis using assms by (simp add: generateEmbedding_v2_def)
next
  case None
  obtain r w1 where call: "withRetry 2 (embedContent_call e t) w = (r, w1)"
    by (cases "withRetry 2 (embedContent_call e t) w")
  then have same: "embeddingCache w1 = embeddingCache w"
    using withRetry_cache [of "embedContent_call e t" 2 w] embedContent_call_cache by simp
  show ?thesis
  proof (cases r)
    case (Inl err)
    then show ?thesis using None call same assms by (simp add: generateEmbedding_v2_def)
  next
    case (Inr v)
    then show ?thesis
      using None call same assms cache_store_bounded [of w1 "take 100 t" v]
      by (simp add: generateEmbedding_v2_def)
  qed
qed

text \<open>A hit returns the cached vector and leaves the cache, and so its order, as it is.\<close>

lemma generateEmbedding_hit:
  assumes "map_of (embeddingCache w) (take 100 t) = Some v"
  shows "generateEmbedding_v1 e t w = (Inr v, w)" "generateEmbedding_v2 e t w = (Inr v, w)"
  using assms by (simp_all add: generateEmbedding_v1_def generateEmbedding_v2_def)

text \<open>A miss that the provider answers stores the vector under the prefix.\<close>

lemma generateEmbedding_miss:
  assumes "map_of (embeddingCache w) (take 100 t) = None"
    and "embedContent e = (\<lambda>n t. Inr (vec n t))"
  shows "embeddingCache (snd (generateEmbedding_v1 e t w))
           = embeddingCache (cache_store (take 100 t) (vec (ticks w) t) w)"
    and "embeddingCache (snd (generateEmbedding_v2 e t w))
           = embeddingCache (cache_store (take 100 t) (vec (ticks w) t) w)"
  using assms
  by (simp_all add: generateEmbedding_v1_def generateEmbedding_v2_def embedContent_call_def
      numeral_2_eq_2 cache_store_def Let_def split: list.splits)

lemma cache_store_keys:
  assumes "distinct (map fst (embeddingCache w))" "k \<notin> fst ` set (embeddingCache w)"
  shows "map fst (embeddingCache (cache_store k v w))
           = (if length (embeddingCache w) < 1000 then map fst (embeddingCache w) @ [k]
              else tl (map fst (embeddingCache w) @ [k]))"
proof (cases "embeddingCache w")
  case Nil
  then show ?thesis by (simp add: cache_store_def Let_def)
next
  case (Cons p rest)
  obtain k0 v0 where p: "p = (k0, v0)" by (cases p)
  have upd: "AList.update k v (embeddingCache w) = (k0, v0) # rest @ [(k, v)]"
    using update_fresh [OF assms(2), of v] Cons p by simp
  have "k0 \<notin> fst ` set (rest @ [(k, v)])"
    using assms Cons p by (auto simp: image_iff)
  then have del: "AList.delete k0 ((k0, v0) # rest @ [(k, v)]) = rest @ [(k, v)]"
    by (rule delete_head_distinct)
  show ?thesis using Cons p upd del by (auto simp: cache_store_def Let_def)
qed

lemma tl_drop_snoc: "d < length xs \<Longrightarrow> tl (drop d xs @ [x]) = drop (Suc d) (xs @ [x])"
  by (cases "drop d xs") (simp_all add: drop_Suc drop_tl)

lemma embed_all_snoc: "embed_all gen (ts @ [t]) w = snd (gen t (embed_all gen ts w))"
  by (simp add: embed_all_def)

lemma embed_all_keys:
  assumes gen: "gen = generateEmbedding_v1 e \<or> gen = generateEmbedding_v2 e"
    and ok: "embedContent e = (\<lambda>n t. Inr (vec n t))"
    and empty: "embeddingCache w = []"
  shows "distinct (map (take 100) ts) \<Longrightarrow>
    map fst (embeddingCache (embed_all gen ts w)) = drop (length ts - 1000) (map (take 100) ts)"
proof (induction ts rule: rev_induct)
  case Nil
  then show ?case using empty by (simp add: embed_all_def)
next
  case (snoc t ts)
  let ?w = "embed_all gen ts w"
  let ?K = "map (take 100) ts"
  from snoc.prems have dist: "distinct ?K" and fresh: "take 100 t \<notin> set ?K" by simp_all
  have keys: "map fst (embeddingCache ?w) = drop (length ts - 1000) ?K"
    using snoc.IH [OF dist] .
  have dk: "distinct (map fst (embeddingCache ?w))" using keys dist by simp
  have nk: "take 100 t \<notin> fst ` set (embeddingCache ?w)"
  proof
    assume "take 100 t \<in> fst ` set (embeddingCache ?w)"
    then have "take 100 t \<in> set (map fst (embeddingCache ?w))" by simp
    then have "take 100 t \<in> set (drop (length ts - 1000) ?K)" using keys by simp
    then show False using fresh by (auto dest: in_set_dropD)
  qed
  then have miss: "map_of (embeddingCache ?w) (take 100 t) = None"
    by (simp add: map_of_eq_None_iff)
  have len: "length (embeddingCache ?w) = min (length ts) 1000"
    using arg_cong [OF keys, of length] by simp
  have "embeddingCache (snd (gen t ?w))
          = embeddingCache (cache_store (take 100 t) (vec (ticks ?w) t) ?w)"
    using gen generateEmbedding_miss [OF miss ok] by auto
  then have "map fst (embeddingCache (embed_all gen (ts @ [t]) w))
      = (if length (embeddingCache ?w) < 1000 then map fst (embeddingCache ?w) @ [take 100 t]
         else tl (map fst (embeddingCache ?w) @ [take 100 t]))"
    using cache_store_keys [OF dk nk] by (simp add: embed_all_snoc)
  also have "\<dots> = drop (length (ts @ [t]) - 1000) (map (take 100) (ts @ [t]))"
  proof (cases "length ts < 1000")
    case True
    then show ?thesis using keys len by simp
  next
    case False
    then have "tl (drop (length ts - 1000) ?K @ [take 100 t])
                 = drop (Suc (length ts - 1000)) (?K @ [take 100 t])"
      by (intro tl_drop_snoc) simp
    moreover have "Suc (length ts - 1000) = length (ts @ [t]) - 1000" using False by simp
    ultimately show ?thesis using False keys len by simp
  qed
  finally show ?case .
qed

lemma embed_all_bounded:
  assumes gen: "gen = generateEmbedding_v1 e \<or> gen = generateEmbedding_v2 e"
    and "length (embeddingCache w) \<le> 1000"
  shows "length (embeddingCache (embed_all gen ts w)) \<le> 1000"
proof (induction ts rule: rev_induct)
  case Nil
  then show ?case using assms(2) by (simp add: embed_all_def)
next
  case (snoc t ts)
  then show ?case
    using gen generateEmbedding_v1_bounded generateEmbedding_v2_bounded
    by (auto simp: embed_all_snoc)
qed

lemma text_no_length: "length (text_no n) = n div 40 + Suc (n mod 40)"
  by (simp add: text_no_def)

lemma text_no_inj: "text_no n = text_no m \<Longrightarrow> n = m"
proof -
  assume eq: "text_no n = text_no m"
  have a: "takeWhile (\<lambda>c. c = CHR ''a'') (text_no k) = replicate (k div 40) (CHR ''a'')" for k
    by (subst text_no_def, subst takeWhile_append2) simp_all
  have "replicate (n div 40) (CHR ''a'') = replicate (m div 40) (CHR ''a'')"
    using a [of n] a [of m] eq by simp
  then have d: "n div 40 = m div 40" by (metis length_replicate)
  have "length (text_no n) = length (text_no m)" using eq by simp
  then have "n mod 40 = m mod 40" using d by (simp add: text_no_length)
  with d show "n = m" by (metis div_mult_mod_eq)
qed

lemma text_no_prefix: "n < 1001 \<Longrightarrow> take 100 (text_no n) = text_no n"
proof -
  assume "n < 1001"
  then have "n div 40 \<le> 25" by simp
  moreover have "n mod 40 < 40" by simp
  ultimately have "length (text_no n) \<le> 100" by (simp add: text_no_length)
  then show ?thesis by simp
qed

lemma texts_prefixes: "map (take 100) (map text_no [m..<1001]) = map text_no [m..<1001]"
  unfolding map_map by (rule map_cong [OF refl]) (simp add: text_no_prefix)

lemma texts_distinct: "distinct (map (take 100) (map text_no [0..<1001]))"
  unfolding texts_prefixes by (simp add: distinct_map inj_on_def) (metis text_no_inj)

lemma texts_tl: "map (take 100) (tl (map text_no [0..<1001])) = map text_no [1..<1001]"
proof -
  have "tl (map text_no [0..<1001]) = map text_no [Suc 0..<1001]"
    unfolding map_tl [symmetric] tl_upt ..
  then show ?thesis using texts_prefixes [of 1] by (simp only: One_nat_def)
qed

lemma texts_hd: "take 100 (hd (map text_no [0..<1001])) = text_no 0"
proof -
  have "[0..<1001] = 0 # [Suc 0..<1001]" by (rule upt_conv_Cons) simp
  then have "hd (map text_no [0..<1001]) = text_no 0" by (simp only: list.map list.sel)
  then show ?thesis using text_no_prefix [of 0] by simp
qed

text \<open>
  C9: the embedding cache never holds more than 1000 entries after a call of
  \<open>generateEmbedding\<close> returns, in either copy of the module: a call keeps the bound, and
  so does every sequence of calls from the empty cache. A hit leaves the cache and its
  order as they are, so the eviction follows the insertion order. After 1001 texts with
  distinct 100-character prefixes have been embedded from the empty cache, the provider
  answering each, the cache holds exactly the prefixes of the last 1000 texts in order:
  the first inserted entry, and only it, has been evicted.
\<close>

theorem embedding_cache_bounded:
  assumes gen: "gen = generateEmbedding_v1 e \<or> gen = generateEmbedding_v2 e"
  shows "(length (embeddingCache w) \<le> 1000 \<longrightarrow> length (embeddingCache (snd (gen t w))) \<le> 1000)
    \<and> (embeddingCache w = [] \<longrightarrow> length (embeddingCache (embed_all gen ts w)) \<le> 1000)
    \<and> (map_of (embeddingCache w) (take 100 t) = Some v \<longrightarrow> gen t w = (Inr v, w))
    \<and> (embeddingCache w = [] \<and> length ts = 1001 \<and> distinct (map (take 100) ts)
         \<and> embedContent e = (\<lambda>n t. Inr (vec n t)) \<longrightarrow>
         map fst (embeddingCache (embed_all gen ts w)) = map (take 100) (tl ts)
         \<and> length (embeddingCache (embed_all gen ts w)) = 1000
         \<and> map_of (embeddingCache (embed_all gen ts w)) (take 100 (hd ts)) = None)"
proof (intro conjI impI)
  assume "length (embeddingCache w) \<le> 1000"
  then show "length (embeddingCache (snd (gen t w))) \<le> 1000"
    using gen generateEmbedding_v1_bounded generateEmbedding_v2_bounded by auto
next
  assume "embeddingCache w = []"
  then show "length (embeddingCache (embed_all gen ts w)) \<le> 1000"
    using embed_all_bounded [OF gen, of w ts] by simp
next
  assume "map_of (embeddingCache w) (take 100 t) = Some v"
  then show "gen t w = (Inr v, w)" using gen generateEmbedding_hit by auto
next
  assume h: "embeddingCache w = [] \<and> length ts = 1001 \<and> distinct (map (take 100) ts)
         \<and> embedContent e = (\<lambda>n t. Inr (vec n t))"
  then have keys: "map fst (embeddingCache (embed_all gen ts w)) = drop 1 (map (take 100) ts)"
    using embed_all_keys [OF gen, of vec w ts] by simp
  then show k: "map fst (embeddingCache (embed_all gen ts w)) = map (take 100) (tl ts)"
    by (simp add: drop_Suc map_tl)
  show "length (embeddingCache (embed_all gen ts w)) = 1000"
    using arg_cong [OF keys, of length] h by simp
  obtain x xs where ts: "ts = x # xs" using h by (cases ts) auto
  then have "take 100 x \<notin> set (map (take 100) xs)" using h by auto
  then have "take 100 (hd ts) \<notin> fst ` set (embeddingCache (embed_all gen ts w))"
    using k ts by (metis list.sel(1) list.sel(3) set_map)
  then show "map_of (embeddingCache (embed_all gen ts w)) (take 100 (hd ts)) = None"
    by (simp add: map_of_eq_None_iff)
qed

theorem embedding_cache_bounded_witness:
  "length (map text_no [0..<1001]) = 1001
   \<and> distinct (map (take 100) (map text_no [0..<1001]))
   \<and> map fst (embeddingCache (embed_all (generateEmbedding_v2 env_up) (map text_no [0..<1001]) world0))
       = map text_no [1..<1001]
   \<and> length (embeddingCache (embed_all (generateEmbedding_v2 env_up) (map text_no [0..<1001]) world0))
       = 1000
   \<and> map_of (embeddingCache (embed_all (generateEmbedding_v2 env_up) (map text_no [0..<1001]) world0))
        (text_no 0) = None"
proof -
  have g: "generateEmbedding_v2 env_up = generateEmbedding_v1 env_up
           \<or> generateEmbedding_v2 env_up = generateEmbedding_v2 env_up" by simp
  have len: "length (map text_no [0..<1001]) = 1001" by (simp only: length_map length_upt diff_zero)
  have prov: "embedContent env_up = (\<lambda>n t. Inr ((\<lambda>n t. [1, 0]) n t))" by (simp add: env_up_def)
  have empty: "embeddingCache world0 = []" by (simp add: world0_def)
  have h: "embeddingCache world0 = [] \<and> length (map text_no [0..<1001]) = 1001
           \<and> distinct (map (take 100) (map text_no [0..<1001]))
           \<and> embedContent env_up = (\<lambda>n t. Inr ((\<lambda>n t. [1, 0]) n t))"
    by (intro conjI) (rule empty len texts_distinct prov)+
  note run = embedding_cache_bounded [OF g, of world0 "[]" "map text_no [0..<1001]" "[]"
      "\<lambda>n t. [1, 0]", THEN conjunct2, THEN conjunct2, THEN conjunct2, THEN mp, OF h]
  from run have a1: "map fst (embeddingCache (embed_all (generateEmbedding_v2 env_up)
        (map text_no [0..<1001]) world0)) = map text_no [1..<1001]"
    and a2: "length (embeddingCache (embed_all (generateEmbedding_v2 env_up)
        (map text_no [0..<1001]) world0)) = 1000"
    and a3: "map_of (embeddingCache (embed_all (generateEmbedding_v2 env_up)
        (map text_no [0..<1001]) world0)) (text_no 0) = None"
    by (simp_all only: texts_tl texts_hd)
  show ?thesis by (intro conjI) (rule len texts_distinct a1 a2 a3)+
qed

section \<open>Verification: the summarization trigger and its window\<close>

lemma slice_js_last_ten:
  assumes "11 \<le> length xs"
  shows "slice_js xs (- 11) (- 1) = take 10 (drop (length xs - 11) xs)"
proof -
  have "nat (int (length xs) - 1 - (int (length xs) - 11)) = 10" by simp
  moreover have "nat (int (length xs) - 11) = length xs - 11" using assms by simp
  ultimately show ?thesis using assms by (simp add: slice_js_def Let_def max_def)
qed

lemma take_drop_nths: "i + k \<le> length xs \<Longrightarrow> take k (drop i xs) = map (\<lambda>j. xs ! j) [i..<i + k]"
  by (auto intro!: nth_equalityI)

text \<open>
  C5: the trigger is true exactly when the message count is above 10 and a multiple of
  10 (false at 10, 11 and 21, true at 20). When the newest message is appended to a
  conversation of 19 messages, the conversation has 20 messages and the trigger fires:
  the summarizer is called on the messages at positions 9 to 18, which are the ten
  messages before the newest, the newest is not among them, and the summary the
  summarizer returns is appended with the message range from 9 to 19 and saved.
\<close>

theorem summarize_trigger_and_window:
  assumes "length (messages doc0) = 19"
    and "doc = doc0\<lparr>messages := messages doc0 @ [newest]\<rparr>"
    and "u_generateSummary U (drop 9 (messages doc0)) (embed s) = (Inr sm, w1)"
    and "save_error sv 1 = None"
  shows "(\<forall>n. shouldSummarize n = (10 < n \<and> n mod 10 = 0))
    \<and> \<not> shouldSummarize 10 \<and> \<not> shouldSummarize 11 \<and> shouldSummarize 20 \<and> \<not> shouldSummarize 21
    \<and> shouldSummarize (length (messages doc))
    \<and> slice_js (messages doc) (- 11) (- 1) = map (\<lambda>i. messages doc ! i) [9..<19]
    \<and> slice_js (messages doc) (- 11) (- 1) = drop 9 (messages doc0)
    \<and> length (drop 9 (messages doc0)) = 10
    \<and> summarize_step U sv doc s =
        (Inr (doc\<lparr>summaries := summaries doc
                 @ [\<lparr>s_text = sr_text sm, s_embedding = Some (sr_embedding sm),
                     messageRange = (9, 19)\<rparr>]\<rparr>),
         s\<lparr>embed := w1,
           persisted := Some (doc\<lparr>summaries := summaries doc
                 @ [\<lparr>s_text = sr_text sm, s_embedding = Some (sr_embedding sm),
                     messageRange = (9, 19)\<rparr>]\<rparr>)\<rparr>)"
proof -
  have len: "length (messages doc) = 20" using assms(1,2) by simp
  have window: "slice_js (messages doc) (- 11) (- 1) = map (\<lambda>i. messages doc ! i) [9..<19]"
    using slice_js_last_ten [of "messages doc"] take_drop_nths [of 9 10 "messages doc"] len
    by simp
  have before: "slice_js (messages doc) (- 11) (- 1) = drop 9 (messages doc0)"
    using slice_js_last_ten [of "messages doc"] len assms(1,2) by simp
  have step: "summarize_step U sv doc s =
        (Inr (doc\<lparr>summaries := summaries doc
                 @ [\<lparr>s_text = sr_text sm, s_embedding = Some (sr_embedding sm),
                     messageRange = (9, 19)\<rparr>]\<rparr>),
         s\<lparr>embed := w1,
           persisted := Some (doc\<lparr>summaries := summaries doc
                 @ [\<lparr>s_text = sr_text sm, s_embedding = Some (sr_embedding sm),
                     messageRange = (9, 19)\<rparr>]\<rparr>)\<rparr>)"
    using assms(3,4) len
    by (simp add: summarize_step_def shouldSummarize_def before and_then_def in_module_def
        save_def Let_def)
  show ?thesis using window before step len assms(1) by (simp add: shouldSummarize_def)
qed

theorem summarize_trigger_and_window_witness:
  "length (messages (chat_of 19)) = 19
   \<and> save_error services_up 1 = None
   \<and> drop 9 (messages (chat_of 19)) = map message_no [9..<19]
   \<and> summaries (case fst (summarize_step (utils_v2 env_up) services_up
                            ((chat_of 19)\<lparr>messages := messages (chat_of 19)
                                                   @ [user_message req_hello [1, 0] []]\<rparr>)
                            (state_of ((chat_of 19)\<lparr>messages := messages (chat_of 19)
                                                   @ [user_message req_hello [1, 0] []]\<rparr>))) of
                  Inr d \<Rightarrow> d | Inl err \<Rightarrow> chat_of 19)
       = [\<lparr>s_text = ''Recap'', s_embedding = Some [1, 0], messageRange = (9, 19)\<rparr>]"
proof -
  define doc where "doc = (chat_of 19)\<lparr>messages := messages (chat_of 19)
                                                   @ [user_message req_hello [1, 0] []]\<rparr>"
  have h1: "length (messages (chat_of 19)) = 19" by (simp add: chat_of_def)
  have window: "drop 9 (messages (chat_of 19)) = map message_no [9..<19]"
    by (simp add: chat_of_def drop_map)
  have h3: "u_generateSummary (utils_v2 env_up) (drop 9 (messages (chat_of 19)))
              (embed (state_of doc))
            = (Inr \<lparr>sr_text = ''Recap'', sr_embedding = [1, 0]\<rparr>,
               \<lparr>embeddingCache = [(''Recap'', [1, 0])], ticks = 2\<rparr>)"
    unfolding window
    by (simp add: utils_v2_def generateSummary_v2_def env_up_def generateContent_call_def
        generateEmbedding_v2_def embedContent_call_def cache_store_def state_of_def world0_def
        numeral_2_eq_2)
  have h4: "save_error services_up 1 = None" by (simp add: services_up_def)
  have "summaries (case fst (summarize_step (utils_v2 env_up) services_up doc (state_of doc)) of
                     Inr d \<Rightarrow> d | Inl err \<Rightarrow> chat_of 19)
       = [\<lparr>s_text = ''Recap'', s_embedding = Some [1, 0], messageRange = (9, 19)\<rparr>]"
    using summarize_trigger_and_window [OF h1 doc_def h3 h4]
    by (simp add: doc_def chat_of_def)
  then show ?thesis using h1 h4 window by (simp add: doc_def)
qed

text \<open>\<open>sendMessage\<close> has no handler around the summarizer: a summarizer that rejects
  makes the step, and with it the request, fail.\<close>

lemma summarize_step_propagates:
  assumes "shouldSummarize (length (messages doc))"
    and "fst (u_generateSummary U (slice_js (messages doc) (- 11) (- 1)) (embed s)) = Inl err"
  shows "fst (summarize_step U sv doc s) = Inl err"
  using assms
  by (auto simp: summarize_step_def and_then_def in_module_def split: prod.splits sum.splits)

text \<open>The count that fires the trigger is even: when every earlier message has its
  reply, the count after the append is odd and the summarizer is not called.\<close>

lemma shouldSummarize_even: "shouldSummarize n \<Longrightarrow> even n"
proof -
  assume "shouldSummarize n"
  then have "n mod 10 = 0" by (simp add: shouldSummarize_def)
  then show "even n" by presburger
qed

section \<open>Verification: the conversation context\<close>

lemma slice_js_drop_last_five: "slice_js xs 0 (- 5) = take (length xs - 5) xs"
  by (simp add: slice_js_def Let_def max_def nat_diff_distrib')

lemma candidates_eq:
  "messagesWithEmbeddings doc
     = filter message_has_embedding (take (length (messages doc) - 5) (messages doc))"
  by (simp add: messagesWithEmbeddings_def slice_js_drop_last_five)

lemma message_candidate_fun:
  "(\<lambda>msg. \<lparr>c_text = content msg, c_embedding = m_embedding msg, c_fileName = None\<rparr>)
     = message_candidate"
  by (simp add: message_candidate_def fun_eq_iff)

lemma has_embedding_fun:
  "message_has_embedding = (\<lambda>msg. case m_embedding msg of None \<Rightarrow> False | Some v \<Rightarrow> v \<noteq> [])"
  by (auto simp: message_has_embedding_def fun_eq_iff split: option.splits)

lemma summary_candidate_fun:
  "(\<lambda>sm. \<lparr>c_text = s_text sm, c_embedding = s_embedding sm, c_fileName = None\<rparr>)
     = summary_candidate"
  by (simp add: summary_candidate_def fun_eq_iff)

text \<open>
  What \<open>getRelevantMessages\<close> does. The context is empty when the conversation, the
  appended message included, has fewer than 6 messages. Otherwise the candidates are the
  messages with an embedding that is present and not empty among \<open>messages.slice(0, -5)\<close>,
  that is, among all but the last four of the messages before the appended one; they are
  retrieved with a count of 3. With no such message the retrieval goes to the summaries,
  with a count of 1. A retrieval that rejects leaves the context empty.
\<close>

lemma getRelevantMessages_spec:
  "(length (messages doc) < 6 \<longrightarrow> getRelevantMessages U doc q w = (Inr [], w))
   \<and> messagesWithEmbeddings doc
       = filter (\<lambda>msg. case m_embedding msg of None \<Rightarrow> False | Some v \<Rightarrow> v \<noteq> [])
           (take (length (messages doc) - 5) (messages doc))
   \<and> (\<forall>older newest. messages doc = older @ [newest] \<longrightarrow>
         messagesWithEmbeddings doc
           = filter (\<lambda>msg. case m_embedding msg of None \<Rightarrow> False | Some v \<Rightarrow> v \<noteq> [])
               (take (length older - 4) older))
   \<and> (6 \<le> length (messages doc) \<and> messagesWithEmbeddings doc \<noteq> [] \<longrightarrow>
         getRelevantMessages U doc q w =
           (case u_findRelevantChunks U q
                   (Some (map message_candidate (messagesWithEmbeddings doc))) 3 w of
              (Inl err, w1) \<Rightarrow> (Inr [], w1)
            | (Inr r, w1) \<Rightarrow> (Inr (join (newline @ newline) (map c_text r)), w1)))
   \<and> (6 \<le> length (messages doc) \<and> messagesWithEmbeddings doc = [] \<longrightarrow>
         getRelevantMessages U doc q w =
           (if summaries doc = [] then (Inr [], w)
            else
              (case u_findRelevantChunks U q (Some (map summary_candidate (summaries doc))) 1 w of
                 (Inl err, w1) \<Rightarrow> (Inr [], w1)
               | (Inr r, w1) \<Rightarrow>
                   (Inr (join (newline @ newline)
                           (map (\<lambda>c. ''CONVERSATION SUMMARY: '' @ c_text c) r)), w1))))"
proof (intro conjI allI impI)
  assume "length (messages doc) < 6"
  then show "getRelevantMessages U doc q w = (Inr [], w)"
    by (simp add: getRelevantMessages_def)
next
  show "messagesWithEmbeddings doc
       = filter (\<lambda>msg. case m_embedding msg of None \<Rightarrow> False | Some v \<Rightarrow> v \<noteq> [])
           (take (length (messages doc) - 5) (messages doc))"
    by (simp add: candidates_eq has_embedding_fun)
next
  fix older newest assume "messages doc = older @ [newest]"
  then show "messagesWithEmbeddings doc
      = filter (\<lambda>msg. case m_embedding msg of None \<Rightarrow> False | Some v \<Rightarrow> v \<noteq> [])
          (take (length older - 4) older)"
    by (simp add: candidates_eq has_embedding_fun)
next
  assume "6 \<le> length (messages doc) \<and> messagesWithEmbeddings doc \<noteq> []"
  then show "getRelevantMessages U doc q w =
           (case u_findRelevantChunks U q
                   (Some (map message_candidate (messagesWithEmbeddings doc))) 3 w of
              (Inl err, w1) \<Rightarrow> (Inr [], w1)
            | (Inr r, w1) \<Rightarrow> (Inr (join (newline @ newline) (map c_text r)), w1))"
    by (auto simp: getRelevantMessages_def message_candidate_fun split: prod.splits sum.splits)
next
  assume "6 \<le> length (messages doc) \<and> messagesWithEmbeddings doc = []"
  then show "getRelevantMessages U doc q w =
           (if summaries doc = [] then (Inr [], w)
            else
              (case u_findRelevantChunks U q (Some (map summary_candidate (summaries doc))) 1 w of
                 (Inl err, w1) \<Rightarrow> (Inr [], w1)
               | (Inr r, w1) \<Rightarrow>
                   (Inr (join (newline @ newline)
                           (map (\<lambda>c. ''CONVERSATION SUMMARY: '' @ c_text c) r)), w1)))"
    by (auto simp: getRelevantMessages_def getRelevantSummaries_def summary_candidate_fun
        split: prod.splits sum.splits)
qed

text \<open>The code's candidates against the claim's, in general: with at least six messages
  the code takes one message more, the oldest of the five that form the history of the
  chat session.\<close>

lemma candidates_one_more:
  assumes "messages doc = older @ [newest]" "5 \<le> length older"
  shows "messagesWithEmbeddings doc
           = claimed_candidates doc
             @ filter (\<lambda>msg. case m_embedding msg of None \<Rightarrow> False | Some v \<Rightarrow> v \<noteq> [])
                 [older ! (length older - 5)]"
    and "map snd (history doc) = map content (drop (length older - 5) older)"
proof -
  have "length older - 4 = Suc (length older - 5)" using assms(2) by simp
  then have "take (length older - 4) older
      = take (length older - 5) older @ [older ! (length older - 5)]"
    using assms(2) take_Suc_conv_app_nth [of "length older - 5" older] by simp
  then show "messagesWithEmbeddings doc
           = claimed_candidates doc
             @ filter (\<lambda>msg. case m_embedding msg of None \<Rightarrow> False | Some v \<Rightarrow> v \<noteq> [])
                 [older ! (length older - 5)]"
    using assms(1) by (simp add: candidates_eq has_embedding_fun claimed_candidates_def)
  show "map snd (history doc) = map content (drop (length older - 5) older)"
    using assms by (auto simp: history_def slice_js_def Let_def comp_def max_def nat_diff_distrib')
qed

lemma cosine_unit: "cosineSimilarity_v2 (Some [1, 0]) (Some [1, 0]) = Num 1"
  by (simp add: cosineSimilarity_v2_def cosine_loop_def cosine_step_def js_index_def)

lemma getRelevantMessages_examples:
  "length (messages (chat_of 5)) < 6
   \<and> getRelevantMessages (utils_v2 env_up) (chat_of 5) ''q'' world0 = (Inr [], world0)
   \<and> 6 \<le> length (messages (chat_of 8))
   \<and> messagesWithEmbeddings (chat_of 8) = [message_no 0, message_no 1, message_no 2]
   \<and> fst (getRelevantMessages (utils_v2 env_up) (chat_of 8) ''q'' world0)
       = Inr (''turn'' @ newline @ newline @ ''turn'' @ newline @ newline @ ''turn'')
   \<and> 6 \<le> length (messages chat_unembedded)
   \<and> messagesWithEmbeddings chat_unembedded = []
   \<and> fst (getRelevantMessages (utils_v2 env_up) chat_unembedded ''q'' world0)
       = Inr ''CONVERSATION SUMMARY: Recap''"
proof -
  have short: "length (messages (chat_of 5)) < 6" by (simp add: chat_of_def)
  have long: "6 \<le> length (messages (chat_of 8))" by (simp add: chat_of_def)
  have take3: "take 3 (map message_no [0..<8]) = [message_no 0, message_no 1, message_no 2]"
    by (simp add: take_map upt_conv_Cons numeral_2_eq_2 del: upt_Suc)
  have cands: "messagesWithEmbeddings (chat_of 8) = [message_no 0, message_no 1, message_no 2]"
    using getRelevantMessages_spec [of "chat_of 8" U q w, THEN conjunct2, THEN conjunct1] take3
    by (simp add: chat_of_def message_has_embedding_def message_no_def)
  have long2: "6 \<le> length (messages chat_unembedded)" by (simp add: chat_unembedded_def)
  have none: "messagesWithEmbeddings chat_unembedded = []"
    using getRelevantMessages_spec [of chat_unembedded U q w, THEN conjunct2, THEN conjunct1]
    by (simp add: chat_unembedded_def message_has_embedding_def)
  have q: "generateEmbedding_v2 env_up ''q'' world0
      = (Inr [1, 0], \<lparr>embeddingCache = [(''q'', [1, 0])], ticks = 1\<rparr>)"
    by (simp add: generateEmbedding_v2_def embedContent_call_def env_up_def world0_def
        cache_store_def numeral_2_eq_2)
  have retrieved: "fst (u_findRelevantChunks (utils_v2 env_up) ''q''
        (Some (map message_candidate [message_no 0, message_no 1, message_no 2])) 3 world0)
      = Inr (map (score_chunk_v2 [1, 0])
               (map message_candidate [message_no 0, message_no 1, message_no 2]))"
    by (simp add: utils_v2_def findRelevantChunks_v2_def q has_embedding_def message_candidate_def
        message_no_def score_chunk_v2_def with_score_def cosine_unit lengthBonus_def sort_js_def
        by_score_desc_def js_sub_def slice_js_def)
  have summary_retrieved: "fst (u_findRelevantChunks (utils_v2 env_up) ''q''
        (Some (map summary_candidate (summaries chat_unembedded))) 1 world0)
      = Inr (map (score_chunk_v2 [1, 0]) (map summary_candidate (summaries chat_unembedded)))"
    by (simp add: utils_v2_def findRelevantChunks_v2_def q has_embedding_def summary_candidate_def
        chat_unembedded_def score_chunk_v2_def with_score_def cosine_unit lengthBonus_def
        sort_js_def slice_js_def)
  have a: "getRelevantMessages (utils_v2 env_up) (chat_of 5) ''q'' world0 = (Inr [], world0)"
    using getRelevantMessages_spec [of "chat_of 5" "utils_v2 env_up" "''q''" world0] short by blast
  have b: "fst (getRelevantMessages (utils_v2 env_up) (chat_of 8) ''q'' world0)
       = Inr (''turn'' @ newline @ newline @ ''turn'' @ newline @ newline @ ''turn'')"
  proof -
    have "getRelevantMessages (utils_v2 env_up) (chat_of 8) ''q'' world0 =
           (case u_findRelevantChunks (utils_v2 env_up) ''q''
                   (Some (map message_candidate (messagesWithEmbeddings (chat_of 8)))) 3 world0 of
              (Inl err, w1) \<Rightarrow> (Inr [], w1)
            | (Inr r, w1) \<Rightarrow> (Inr (join (newline @ newline) (map c_text r)), w1))"
      using cands
      by (intro getRelevantMessages_spec [of "chat_of 8" "utils_v2 env_up" "''q''" world0,
            THEN conjunct2, THEN conjunct2, THEN conjunct2, THEN conjunct1, THEN mp]
          conjI long) simp
    then show ?thesis
      using retrieved
      by (simp add: cands split: prod.splits sum.splits)
         (auto simp: score_chunk_v2_fields message_candidate_def message_no_def)
  qed
  have c: "fst (getRelevantMessages (utils_v2 env_up) chat_unembedded ''q'' world0)
       = Inr ''CONVERSATION SUMMARY: Recap''"
  proof -
    have "summaries chat_unembedded \<noteq> []" by (simp add: chat_unembedded_def)
    then have "getRelevantMessages (utils_v2 env_up) chat_unembedded ''q'' world0 =
        (case u_findRelevantChunks (utils_v2 env_up) ''q''
                (Some (map summary_candidate (summaries chat_unembedded))) 1 world0 of
           (Inl err, w1) \<Rightarrow> (Inr [], w1)
         | (Inr r, w1) \<Rightarrow>
             (Inr (join (newline @ newline)
                     (map (\<lambda>c. ''CONVERSATION SUMMARY: '' @ c_text c) r)), w1))"
      using getRelevantMessages_spec [of chat_unembedded "utils_v2 env_up" "''q''" world0,
            THEN conjunct2, THEN conjunct2, THEN conjunct2, THEN conjunct2, THEN mp,
            OF conjI [OF long2 none]]
      by simp
    then show ?thesis
      using summary_retrieved
      by (simp split: prod.splits sum.splits)
         (auto simp: score_chunk_v2_fields summary_candidate_def chat_unembedded_def)
  qed
  show ?thesis using short a long cands b long2 none c by simp
qed

text \<open>The retrieval of the conversation context never rejects, whatever the embedding
  module does.\<close>

lemma getRelevantMessages_returns: "\<exists>r. fst (getRelevantMessages U doc q w) = Inr r"
  by (auto simp: getRelevantMessages_def split: prod.splits sum.splits)

text \<open>
  C6: the retrieval candidates are the embedded messages older than the most recent 5,
  the message just appended not counted; the five most recent are the immediate history
  of the chat session, and the comment of the source says that the candidates exclude
  them. The code slices the conversation with the appended message in it, by
  \<open>slice(0, -5)\<close>, so its candidates reach one message further: on the conversation a to
  g, where g is the message just appended, the history is b to f, the claim's only
  candidate is a, and the code's candidates are a and b. The context it returns holds
  the text of b, which the history holds already. When the embedding of a is empty, the
  claim has no candidate and the retrieval goes to the summaries (there are none, the
  context is empty); the code has b as its candidate and returns its text.
\<close>

theorem getRelevantMessages_overlaps_history:
  "map content (messagesWithEmbeddings chat_seven) = [''a'', ''b'']
   \<and> map content (claimed_candidates chat_seven) = [''a'']
   \<and> map snd (history chat_seven) = [''b'', ''c'', ''d'', ''e'', ''f'']
   \<and> fst (getRelevantMessages (utils_v1 env_up) chat_seven ''g'' world0)
       = Inr (''a'' @ newline @ newline @ ''b'')
   \<and> fst (getRelevantMessages (utils_v2 env_up) chat_seven ''g'' world0)
       = Inr (''a'' @ newline @ newline @ ''b'')
   \<and> map content (messagesWithEmbeddings chat_seven_gap) = [''b'']
   \<and> claimed_candidates chat_seven_gap = []
   \<and> summaries chat_seven_gap = []
   \<and> fst (getRelevantMessages (utils_v1 env_up) chat_seven_gap ''g'' world0) = Inr ''b''
   \<and> fst (getRelevantMessages (utils_v2 env_up) chat_seven_gap ''g'' world0) = Inr ''b''"
proof -
  have q1: "generateEmbedding_v1 env_up ''g'' world0
      = (Inr [1, 0], \<lparr>embeddingCache = [(''g'', [1, 0])], ticks = 1\<rparr>)"
    by (simp add: generateEmbedding_v1_def embedContent_call_def env_up_def world0_def
        cache_store_def)
  have q2: "generateEmbedding_v2 env_up ''g'' world0
      = (Inr [1, 0], \<lparr>embeddingCache = [(''g'', [1, 0])], ticks = 1\<rparr>)"
    by (simp add: generateEmbedding_v2_def embedContent_call_def env_up_def world0_def
        cache_store_def numeral_2_eq_2)
  have cos1: "cosineSimilarity_v1 (Some [1, 0]) (Some [1, 0]) = Inr (Num 1)"
    by (simp add: cosineSimilarity_v1_def cosine_loop_def cosine_step_def js_index_def)
  have c: "messagesWithEmbeddings chat_seven = [turn ''user'' ''a'' [1, 0], turn ''ai'' ''b'' [1, 0]]"
    by (simp add: messagesWithEmbeddings_def chat_seven_def slice_js_def
        message_has_embedding_def turn_def)
  have g: "messagesWithEmbeddings chat_seven_gap = [turn ''ai'' ''b'' [1, 0]]"
    by (simp add: messagesWithEmbeddings_def chat_seven_gap_def chat_seven_def slice_js_def
        message_has_embedding_def turn_def)
  have len: "length (messages chat_seven) = 7" "length (messages chat_seven_gap) = 7"
    by (simp_all add: chat_seven_gap_def chat_seven_def)
  have "map content (messagesWithEmbeddings chat_seven) = [''a'', ''b'']"
    by (simp add: c turn_def)
  moreover have "map content (claimed_candidates chat_seven) = [''a'']"
    by (simp add: claimed_candidates_def chat_seven_def turn_def)
  moreover have "map snd (history chat_seven) = [''b'', ''c'', ''d'', ''e'', ''f'']"
    by (simp add: history_def chat_seven_def slice_js_def turn_def)
  moreover have "fst (getRelevantMessages (utils_v1 env_up) chat_seven ''g'' world0)
       = Inr (''a'' @ newline @ newline @ ''b'')"
    by (simp add: getRelevantMessages_def c len utils_v1_def findRelevantChunks_v1_def
        q1 cos1 turn_def with_score_def lengthBonus_def sort_js_def by_score_desc_def js_sub_def
        slice_js_def)
  moreover have "fst (getRelevantMessages (utils_v2 env_up) chat_seven ''g'' world0)
       = Inr (''a'' @ newline @ newline @ ''b'')"
    by (simp add: getRelevantMessages_def c len utils_v2_def findRelevantChunks_v2_def
        q2 has_embedding_def score_chunk_v2_def cosine_unit turn_def with_score_def
        lengthBonus_def sort_js_def by_score_desc_def js_sub_def slice_js_def)
  moreover have "map content (messagesWithEmbeddings chat_seven_gap) = [''b'']"
    by (simp add: g turn_def)
  moreover have "claimed_candidates chat_seven_gap = []"
    by (simp add: claimed_candidates_def chat_seven_gap_def chat_seven_def turn_def)
  moreover have "summaries chat_seven_gap = []"
    by (simp add: chat_seven_gap_def chat_seven_def)
  moreover have "fst (getRelevantMessages (utils_v1 env_up) chat_seven_gap ''g'' world0) = Inr ''b''"
    by (simp add: getRelevantMessages_def g len utils_v1_def
        findRelevantChunks_v1_def q1 cos1 turn_def with_score_def lengthBonus_def sort_js_def
        slice_js_def)
  moreover have "fst (getRelevantMessages (utils_v2 env_up) chat_seven_gap ''g'' world0) = Inr ''b''"
    by (simp add: getRelevantMessages_def g len utils_v2_def
        findRelevantChunks_v2_def q2 has_embedding_def score_chunk_v2_def cosine_unit turn_def
        with_score_def lengthBonus_def sort_js_def slice_js_def)
  ultimately show ?thesis by simp
qed

section \<open>Verification: failures of sendMessage\<close>

lemma in_module_frame:
  assumes "in_module f s = (r, s')"
  shows "persisted s' = persisted s" "emitted s' = emitted s"
  using assms by (auto simp: in_module_def split: prod.splits)

lemma emit_frame:
  "persisted (emit sv req ev s) = persisted s"
  "emitted (emit sv req ev s) = emitted s @ (if io sv then [(r_userId req, ev)] else [])"
  by (simp_all add: emit_def)

lemma save_frame:
  assumes "save sv k d s = (r, s')"
  shows "emitted s' = emitted s"
    and "(r = Inr () \<and> persisted s' = Some d) \<or> (\<exists>err. r = Inl err) \<and> persisted s' = persisted s"
  using assms by (auto simp: save_def split: option.splits)

lemma keeps_in_module: "in_module f s = (r, s') \<Longrightarrow> keeps msgs s \<Longrightarrow> keeps msgs s'"
  by (simp add: keeps_def in_module_frame)

lemma keeps_emit: "keeps msgs (emit sv req ev s) = keeps msgs s"
  by (simp add: keeps_def emit_frame)

lemma keeps_save:
  "save sv k d s = (r, s') \<Longrightarrow> keeps msgs s \<Longrightarrow> prefix msgs (messages d) \<Longrightarrow> keeps msgs s'"
  using save_frame(2) [of sv k d s r s'] by (auto simp: keeps_def)

lemma and_then_cases:
  assumes "and_then r f = (x, s')"
  obtains (failed) err where "r = (Inl err, s')" "x = Inl err"
    | (passed) v s1 where "r = (Inr v, s1)" "f v s1 = (x, s')"
  using assms by (auto simp: and_then_def split: prod.splits sum.splits)

lemma summarize_step_keeps:
  assumes "summarize_step U sv doc s = (r, s')" "keeps msgs s" "prefix msgs (messages doc)"
  shows "keeps msgs s'" and "\<And>doc1. r = Inr doc1 \<Longrightarrow> messages doc1 = messages doc"
proof -
  show "keeps msgs s'"
  proof (cases "shouldSummarize (length (messages doc))")
    case False
    then show ?thesis using assms by (simp add: summarize_step_def)
  next
    case True
    then have run: "and_then (in_module (u_generateSummary U (slice_js (messages doc) (- 11) (- 1))) s)
           (\<lambda>sm s1.
              let doc1 = doc\<lparr>summaries := summaries doc
                            @ [\<lparr>s_text = sr_text sm, s_embedding = Some (sr_embedding sm),
                                messageRange = (int (length (messages doc)) - 11,
                                                int (length (messages doc)) - 1)\<rparr>]\<rparr>
              in and_then (save sv 1 doc1 s1) (\<lambda>_ s2. (Inr doc1, s2))) = (r, s')"
      using assms(1) by (simp add: summarize_step_def Let_def)
    from run show ?thesis
    proof (cases rule: and_then_cases)
      case (failed err)
      then show ?thesis using assms(2) keeps_in_module by blast
    next
      case (passed sm s1)
      then have k1: "keeps msgs s1" using assms(2) keeps_in_module by blast
      from passed(2) show ?thesis unfolding Let_def
      proof (cases rule: and_then_cases)
        case (failed err)
        then show ?thesis using k1 assms(3) keeps_save [of sv 1 _ s1 "Inl err" s' msgs] by simp
      next
        case (passed v s2)
        then show ?thesis using k1 assms(3) keeps_save [of sv 1 _ s1 "Inr v" s2 msgs] by auto
      qed
    qed
  qed
  show "\<And>doc1. r = Inr doc1 \<Longrightarrow> messages doc1 = messages doc"
    using assms(1)
    by (auto simp: summarize_step_def Let_def and_then_def split: if_splits prod.splits sum.splits)
qed

lemma file_context_keeps:
  assumes "file_context U sv req refs s = (r, s')" "keeps msgs s"
  shows "keeps msgs s'"
  using assms
  by (auto simp: file_context_def and_then_def split: if_splits prod.splits sum.splits
      dest: keeps_in_module)

lemma consume_stream_keeps:
  "consume_stream sv req chunks acc s = (reply, s') \<Longrightarrow> keeps msgs s \<Longrightarrow> keeps msgs s'"
  by (induction chunks arbitrary: acc s) (auto simp: keeps_emit split: if_splits)

lemma stream_reply_keeps:
  assumes "stream_reply sv req h p s = (r, s')" "keeps msgs s"
  shows "keeps msgs s'"
  using assms
  by (auto simp: stream_reply_def split: sum.splits prod.splits option.splits
      dest: consume_stream_keeps)

lemma title_step_messages: "messages (fst (title_step e msg aiReply doc w)) = messages doc"
  by (auto simp: title_step_def split: prod.splits sum.splits)

lemma complete_keeps:
  assumes "complete U e sv req b doc aiReply s = (r, s')" "keeps msgs s" "prefix msgs (messages doc)"
  shows "keeps msgs s'"
proof -
  from assms(1) have "and_then (in_module (u_generateEmbedding U aiReply) s)
       (\<lambda>aiReplyEmbedding s1.
          let doc1 = doc\<lparr>messages := messages doc @ [ai_message aiReply aiReplyEmbedding]\<rparr>;
              titled = (if b then title_step e (r_message req) aiReply doc1 (embed s1)
                        else (doc1, embed s1));
              doc2 = fst titled;
              s2 = s1\<lparr>embed := snd titled\<rparr>
          in and_then (save sv 2 doc2 s2)
               (\<lambda>_ s3. (Inr (Res200 aiReply (title doc2)),
                         emit sv req (Processing (r_chatId req) ''completed'' (Some (title doc2))) s3)))
      = (r, s')"
    by (simp add: complete_def)
  then show ?thesis
  proof (cases rule: and_then_cases)
  case (failed err)
  then show ?thesis using assms(2) keeps_in_module by blast
next
  case (passed v s1)
  then have k1: "keeps msgs s1" using assms(2) keeps_in_module by blast
  define doc1 where "doc1 = doc\<lparr>messages := messages doc @ [ai_message aiReply v]\<rparr>"
  define doc2 where "doc2 = fst (if b then title_step e (r_message req) aiReply doc1 (embed s1)
                        else (doc1, embed s1))"
  have pre: "prefix msgs (messages doc2)"
    using assms(3) by (auto simp: doc2_def doc1_def title_step_messages prefix_def)
  have k2: "keeps msgs (s1\<lparr>embed := w\<rparr>)" for w using k1 by (simp add: keeps_def)
  from passed(2) have "and_then (save sv 2 doc2 (s1\<lparr>embed := snd (if b then title_step e (r_message req) aiReply doc1 (embed s1)
                        else (doc1, embed s1))\<rparr>))
               (\<lambda>_ s3. (Inr (Res200 aiReply (title doc2)),
                         emit sv req (Processing (r_chatId req) ''completed'' (Some (title doc2))) s3))
        = (r, s')"
    unfolding Let_def doc1_def doc2_def .
  then show ?thesis
  proof (cases rule: and_then_cases)
    case (failed err)
    then show ?thesis using keeps_save [OF _ k2 pre] by blast
  next
    case (passed u s3)
    then have "keeps msgs s3" using keeps_save [OF _ k2 pre] by blast
    then show ?thesis using passed(2) by (auto simp: keeps_emit)
  qed
qed
qed

lemma answer_keeps:
  assumes "answer U e sv req doc refs s = (r, s')" "keeps msgs s" "prefix msgs (messages doc)"
  shows "keeps msgs s'"
proof -
  from assms(1) have "and_then (summarize_step U sv doc s)
       (\<lambda>doc1 s1.
          and_then (file_context U sv req refs s1)
            (\<lambda>fileContext s2.
               and_then (in_module (getRelevantMessages U doc1 (r_message req)) s2)
                 (\<lambda>relevantMessageContext s3.
                    and_then
                      (stream_reply sv req (history doc1)
                         (contextPrompt fileContext relevantMessageContext @ r_message req) s3)
                      (complete U e sv req (length (messages doc) = 1) doc1)))) = (r, s')"
    by (simp add: answer_def)
  then show ?thesis
  proof (cases rule: and_then_cases)
    case (failed err)
    then show ?thesis using summarize_step_keeps(1) assms(2,3) by blast
  next
    case (passed doc1 s1)
    then have k1: "keeps msgs s1" and m1: "messages doc1 = messages doc"
      using summarize_step_keeps assms(2,3) by blast+
    from passed(2) show ?thesis
    proof (cases rule: and_then_cases)
      case (failed err)
      then show ?thesis using file_context_keeps k1 by blast
    next
      case (passed fileContext s2)
      then have k2: "keeps msgs s2" using file_context_keeps k1 by blast
      from passed(2) show ?thesis
      proof (cases rule: and_then_cases)
        case (failed err)
        then show ?thesis using keeps_in_module k2 by blast
      next
        case (passed ctx s3)
        then have k3: "keeps msgs s3" using keeps_in_module k2 by blast
        from passed(2) show ?thesis
        proof (cases rule: and_then_cases)
          case (failed err)
          then show ?thesis using stream_reply_keeps k3 by blast
        next
          case (passed aiReply s4)
          then have "keeps msgs s4" using stream_reply_keeps k3 by blast
          then show ?thesis using passed(2) complete_keeps assms(3) m1 by metis
        qed
      qed
    qed
  qed
qed

lemma complete_result:
  "complete U e sv req b doc aiReply s = (Inr res, s') \<Longrightarrow> \<exists>t. res = Res200 aiReply t"
  by (auto simp: complete_def Let_def and_then_def split: prod.splits sum.splits)

lemma answer_result:
  "answer U e sv req doc refs s = (Inr res, s') \<Longrightarrow> \<exists>reply t. res = Res200 reply t"
  by (auto simp: answer_def and_then_def split: prod.splits sum.splits dest: complete_result)

lemma stream_reply_fails:
  "stream_fails sv \<Longrightarrow> \<exists>err. fst (stream_reply sv req h p s) = Inl err"
  unfolding stream_fails_def stream_reply_def
  by (auto split: sum.splits prod.splits option.splits)

lemma answer_stream_fails:
  assumes "stream_fails sv"
  shows "\<exists>err. fst (answer U e sv req doc refs s) = Inl err"
proof -
  have "\<exists>err. fst (and_then (stream_reply sv req h p s3) f) = Inl err" for h p s3
    and f :: "string \<Rightarrow> state \<Rightarrow> (error + response) \<times> state"
    using stream_reply_fails [OF assms, of req h p s3]
    by (auto simp: and_then_def split: prod.splits sum.splits)
  then show ?thesis
    by (auto simp: answer_def and_then_def [of "summarize_step U sv doc s"]
        and_then_def [of "file_context U sv req refs _"]
        and_then_def [of "in_module _ _"] split: prod.splits sum.splits)
qed

lemma receive_saved:
  assumes "receive U sv req s = (Inr (Inr (doc, refs)), s1)"
  shows "\<exists>d0 emb. persisted s = Some d0
           \<and> messages doc = messages d0 @ [user_message req emb refs]
           \<and> persisted s1 = Some doc"
  using assms
  by (auto simp: receive_def and_then_def in_module_def save_def emit_def Let_def
      split: option.splits sum.splits prod.splits if_splits)

lemma receive_keeps:
  assumes "receive U sv req s = (r, s1)" "persisted s = Some d0"
  shows "keeps (messages d0) s1"
  using assms
  by (auto simp: receive_def and_then_def in_module_def save_def emit_def Let_def keeps_def
      split: option.splits sum.splits prod.splits if_splits)

lemma receive_not_found:
  "receive U sv req s = (Inr (Inl res), s1) \<Longrightarrow> res = Res404"
  by (auto simp: receive_def and_then_def in_module_def save_def emit_def Let_def
      split: option.splits sum.splits prod.splits if_splits)

lemma stream_reply_error:
  assumes "\<forall>h p. sendMessageStream sv h p = Inl err
                \<or> (\<exists>chunks. sendMessageStream sv h p = Inr (chunks, Some err))"
  shows "fst (stream_reply sv req h p s) = Inl err"
  using assms [rule_format, of h p]
  by (auto simp: stream_reply_def split: prod.splits)

lemma answer_stream_error:
  assumes "summarize_step U sv doc s1 = (Inr doc1, s2)"
    and "file_context U sv req refs s2 = (Inr fileContext, s3)"
    and "\<forall>h p. sendMessageStream sv h p = Inl err
                \<or> (\<exists>chunks. sendMessageStream sv h p = Inr (chunks, Some err))"
  shows "fst (answer U e sv req doc refs s1) = Inl err"
proof -
  obtain r s4 where ctx: "in_module (getRelevantMessages U doc1 (r_message req)) s3 = (r, s4)"
    by (cases "in_module (getRelevantMessages U doc1 (r_message req)) s3")
  have "\<exists>c. r = Inr c"
    using ctx by (auto simp: in_module_def getRelevantMessages_def split: prod.splits sum.splits if_splits)
  then obtain c where c: "r = Inr c" by blast
  obtain x s5 where st: "stream_reply sv req (history doc1)
       (contextPrompt fileContext c @ r_message req) s4 = (x, s5)"
    by (cases "stream_reply sv req (history doc1) (contextPrompt fileContext c @ r_message req) s4")
  then have "x = Inl err"
    using stream_reply_error [OF assms(3), of req "history doc1"
        "contextPrompt fileContext c @ r_message req" s4] by simp
  then show ?thesis using assms(1,2) ctx c st by (simp add: answer_def and_then_def)
qed

lemma sendMessage_cases:
  assumes "sendMessage U e sv req s = (res, s')"
  obtains (answered) "and_then (receive U sv req s)
             (\<lambda>r s1. case r of
                        Inl res \<Rightarrow> (Inr res, s1)
                      | Inr (doc, fileReferences) \<Rightarrow> answer U e sv req doc fileReferences s1)
           = (Inr res, s')"
  | (handled) err s2 where "and_then (receive U sv req s)
             (\<lambda>r s1. case r of
                        Inl res \<Rightarrow> (Inr res, s1)
                      | Inr (doc, fileReferences) \<Rightarrow> answer U e sv req doc fileReferences s1)
           = (Inl err, s2)"
      "res = Res500 (error_detail err)"
      "s' = emit sv req (ErrorEvent (r_chatId req) (message err)) s2"
  using assms by (auto simp: sendMessage_def split: prod.splits sum.splits)

lemma body_keeps:
  assumes "and_then (receive U sv req s)
             (\<lambda>r s1. case r of
                        Inl res \<Rightarrow> (Inr res, s1)
                      | Inr (doc, fileReferences) \<Rightarrow> answer U e sv req doc fileReferences s1)
           = (x, s2)"
    and "persisted s = Some d0"
  shows "keeps (messages d0) s2"
  using assms(1)
proof (cases rule: and_then_cases)
  case (failed err)
  then show ?thesis using receive_keeps assms(2) by blast
next
  case (passed v s1)
  then have k1: "keeps (messages d0) s1" using receive_keeps assms(2) by blast
  show ?thesis
  proof (cases v)
    case (Inl res0)
    then show ?thesis using passed(2) k1 by simp
  next
    case (Inr p)
    obtain doc refs where p: "p = (doc, refs)" by (cases p)
    have "prefix (messages d0) (messages doc)"
      using receive_saved [of U sv req s doc refs s1] passed(1) Inr p assms(2) by auto
    then show ?thesis using passed(2) Inr p k1 answer_keeps by auto
  qed
qed

lemma body_after_receive:
  assumes "receive U sv req s = (Inr (Inr (doc, refs)), s1)"
  shows "and_then (receive U sv req s)
             (\<lambda>r s1. case r of
                        Inl res \<Rightarrow> (Inr res, s1)
                      | Inr (doc, fileReferences) \<Rightarrow> answer U e sv req doc fileReferences s1)
           = answer U e sv req doc refs s1"
  using assms by (simp add: and_then_def)

lemma body_result:
  assumes "and_then (receive U sv req s)
             (\<lambda>r s1. case r of
                        Inl res \<Rightarrow> (Inr res, s1)
                      | Inr (doc, fileReferences) \<Rightarrow> answer U e sv req doc fileReferences s1)
           = (Inr res, s2)"
  shows "res = Res404 \<or> (\<exists>reply t. res = Res200 reply t)"
  using assms
proof (cases rule: and_then_cases)
  case (failed err)
  then show ?thesis by simp
next
  case (passed v s1)
  then show ?thesis
    by (cases v) (auto dest: receive_not_found answer_result)
qed

text \<open>A failure that reaches the handler of \<open>sendMessage\<close> fails the request with that
  error.\<close>

lemma handler_fails_with:
  assumes "sendMessage U e sv req s = (res, s')"
    and "receive U sv req s = (Inr (Inr (doc, refs)), s1)"
    and "fst (answer U e sv req doc refs s1) = Inl err"
  shows "fails_with sv req err res s'"
proof -
  obtain s2 where "answer U e sv req doc refs s1 = (Inl err, s2)"
    using assms(3) by (cases "answer U e sv req doc refs s1") simp
  then have "sendMessage U e sv req s
      = (Res500 (error_detail err), emit sv req (ErrorEvent (r_chatId req) (message err)) s2)"
    by (simp add: sendMessage_def and_then_def assms(2))
  then show ?thesis using assms(1) by (auto simp: fails_with_def error_detail_def emit_def split: option.splits)
qed

lemma receive_fails_with:
  assumes "sendMessage U e sv req s = (res, s')"
    and "receive U sv req s = (Inl err, s1)"
  shows "fails_with sv req err res s'" and "persisted s' = persisted s1"
proof -
  have "sendMessage U e sv req s
      = (Res500 (error_detail err), emit sv req (ErrorEvent (r_chatId req) (message err)) s1)"
    by (simp add: sendMessage_def and_then_def assms(2))
  then show "fails_with sv req err res s'" and "persisted s' = persisted s1"
    using assms(1) by (auto simp: fails_with_def error_detail_def emit_def split: option.splits)
qed

lemma handler_answers:
  assumes "sendMessage U e sv req s = (res, s')"
    and "receive U sv req s = (Inr (Inr (doc, refs)), s1)"
    and "fst (answer U e sv req doc refs s1) = Inr r"
  shows "res = r"
proof -
  obtain s2 where "answer U e sv req doc refs s1 = (Inr r, s2)"
    using assms(3) by (cases "answer U e sv req doc refs s1") simp
  then have "sendMessage U e sv req s = (r, s2)"
    by (simp add: sendMessage_def and_then_def assms(2))
  then show ?thesis using assms(1) by simp
qed

text \<open>The steps before the append.\<close>

lemma findOne_fails:
  assumes "sendMessage U e sv req s = (res, s')" "findOne_error sv = Some err"
  shows "fails_with sv req err res s' \<and> persisted s' = persisted s"
proof -
  have "receive U sv req s = (Inl err, s)" using assms(2) by (simp add: receive_def)
  from receive_fails_with [OF assms(1) this] show ?thesis by simp
qed

lemma find_refs_fails:
  assumes "sendMessage U e sv req s = (res, s')" "findOne_error sv = None"
    and "persisted s = Some d0" "r_fileIds req = Some ids" "ids \<noteq> []"
    and "find_refs sv ids = Inl err"
  shows "fails_with sv req err res s' \<and> persisted s' = persisted s"
proof -
  have "receive U sv req s = (Inl err, s)"
    using assms(2-6) by (simp add: receive_def resolve_refs_def)
  from receive_fails_with [OF assms(1) this] show ?thesis by simp
qed

lemma message_embedding_fails:
  assumes "sendMessage U e sv req s = (res, s')" "findOne_error sv = None"
    and "persisted s = Some d0" "resolve_refs sv req = Inr refs"
    and "fst (u_generateEmbedding U (r_message req) (embed s)) = Inl err"
  shows "fails_with sv req err res s' \<and> persisted s' = persisted s"
proof -
  obtain w1 where "u_generateEmbedding U (r_message req) (embed s) = (Inl err, w1)"
    using assms(5) by (cases "u_generateEmbedding U (r_message req) (embed s)") simp
  then have "receive U sv req s = (Inl err, s\<lparr>embed := w1\<rparr>)"
    using assms(2-4) by (simp add: receive_def and_then_def in_module_def)
  from receive_fails_with [OF assms(1) this] show ?thesis by simp
qed

lemma first_save_fails:
  assumes "sendMessage U e sv req s = (res, s')" "findOne_error sv = None"
    and "persisted s = Some d0" "resolve_refs sv req = Inr refs"
    and "fst (u_generateEmbedding U (r_message req) (embed s)) = Inr v"
    and "save_error sv 0 = Some err"
  shows "fails_with sv req err res s' \<and> persisted s' = persisted s"
proof -
  obtain w1 where "u_generateEmbedding U (r_message req) (embed s) = (Inr v, w1)"
    using assms(5) by (cases "u_generateEmbedding U (r_message req) (embed s)") simp
  then have "receive U sv req s = (Inl err, s\<lparr>embed := w1\<rparr>)"
    using assms(2-4,6) by (simp add: receive_def and_then_def in_module_def save_def Let_def)
  from receive_fails_with [OF assms(1) this] show ?thesis by simp
qed

text \<open>The steps after the append, in the order of the source.\<close>

lemma summarizer_fails:
  assumes "shouldSummarize (length (messages doc))"
    and "fst (u_generateSummary U (slice_js (messages doc) (- 11) (- 1)) (embed s1)) = Inl err"
  shows "fst (answer U e sv req doc refs s1) = Inl err"
proof -
  obtain w1 where
    "u_generateSummary U (slice_js (messages doc) (- 11) (- 1)) (embed s1) = (Inl err, w1)"
    using assms(2)
    by (cases "u_generateSummary U (slice_js (messages doc) (- 11) (- 1)) (embed s1)") simp
  then show ?thesis
    using assms(1) by (simp add: answer_def summarize_step_def and_then_def in_module_def)
qed

lemma second_save_fails:
  assumes "shouldSummarize (length (messages doc))"
    and "fst (u_generateSummary U (slice_js (messages doc) (- 11) (- 1)) (embed s1)) = Inr sm"
    and "save_error sv 1 = Some err"
  shows "fst (answer U e sv req doc refs s1) = Inl err"
proof -
  obtain w1 where
    "u_generateSummary U (slice_js (messages doc) (- 11) (- 1)) (embed s1) = (Inr sm, w1)"
    using assms(2)
    by (cases "u_generateSummary U (slice_js (messages doc) (- 11) (- 1)) (embed s1)") simp
  then show ?thesis
    using assms(1,3)
    by (simp add: answer_def summarize_step_def and_then_def in_module_def save_def Let_def)
qed

lemma find_files_fails:
  assumes "summarize_step U sv doc s1 = (Inr doc1, s2)"
    and "refs \<noteq> []" "find_files sv (map fst refs) = Inl err"
  shows "fst (answer U e sv req doc refs s1) = Inl err"
  using assms by (simp add: answer_def and_then_def file_context_def)

lemma file_retrieval_fails:
  assumes "summarize_step U sv doc s1 = (Inr doc1, s2)"
    and "refs \<noteq> []" "find_files sv (map fst refs) = Inr files" "allChunks files \<noteq> []"
    and "fst (u_findRelevantChunks U (r_message req) (Some (allChunks files)) 3 (embed s2))
           = Inl err"
  shows "fst (answer U e sv req doc refs s1) = Inl err"
proof -
  obtain w1 where
    "u_findRelevantChunks U (r_message req) (Some (allChunks files)) 3 (embed s2) = (Inl err, w1)"
    using assms(5)
    by (cases "u_findRelevantChunks U (r_message req) (Some (allChunks files)) 3 (embed s2)") simp
  then show ?thesis
    using assms(1-4) by (simp add: answer_def and_then_def file_context_def in_module_def)
qed

lemma answer_tail:
  assumes "summarize_step U sv doc s1 = (Inr doc1, s2)"
    and "file_context U sv req refs s2 = (Inr fileContext, s3)"
    and "in_module (getRelevantMessages U doc1 (r_message req)) s3 = (Inr ctx, s4)"
  shows "answer U e sv req doc refs s1
           = and_then (stream_reply sv req (history doc1)
                         (contextPrompt fileContext ctx @ r_message req) s4)
               (complete U e sv req (length (messages doc) = 1) doc1)"
  using assms by (simp add: answer_def and_then_def)

lemma stream_call_fails:
  assumes "summarize_step U sv doc s1 = (Inr doc1, s2)"
    and "file_context U sv req refs s2 = (Inr fileContext, s3)"
    and "in_module (getRelevantMessages U doc1 (r_message req)) s3 = (Inr ctx, s4)"
    and "sendMessageStream sv (history doc1) (contextPrompt fileContext ctx @ r_message req)
           = Inl err
         \<or> (\<exists>chunks. sendMessageStream sv (history doc1)
                        (contextPrompt fileContext ctx @ r_message req)
                      = Inr (chunks, Some err))"
  shows "fst (answer U e sv req doc refs s1) = Inl err"
  using assms(4)
  by (auto simp: answer_tail [OF assms(1-3)] stream_reply_def and_then_def split: prod.splits)

lemma stream_reply_passes:
  assumes "sendMessageStream sv h p = Inr (chunks, None)"
    and "consume_stream sv req chunks [] s4 = (reply, s5)"
  shows "stream_reply sv req h p s4 = (Inr reply, s5)"
  using assms by (simp add: stream_reply_def)

lemma reply_embedding_fails:
  assumes "summarize_step U sv doc s1 = (Inr doc1, s2)"
    and "file_context U sv req refs s2 = (Inr fileContext, s3)"
    and "in_module (getRelevantMessages U doc1 (r_message req)) s3 = (Inr ctx, s4)"
    and "sendMessageStream sv (history doc1) (contextPrompt fileContext ctx @ r_message req)
           = Inr (chunks, None)"
    and "consume_stream sv req chunks [] s4 = (reply, s5)"
    and "fst (u_generateEmbedding U reply (embed s5)) = Inl err"
  shows "fst (answer U e sv req doc refs s1) = Inl err"
proof -
  obtain w1 where "u_generateEmbedding U reply (embed s5) = (Inl err, w1)"
    using assms(6) by (cases "u_generateEmbedding U reply (embed s5)") simp
  then show ?thesis
    by (simp add: answer_tail [OF assms(1-3)] stream_reply_passes [OF assms(4,5)]
        and_then_def complete_def in_module_def)
qed

lemma last_save_fails:
  assumes "summarize_step U sv doc s1 = (Inr doc1, s2)"
    and "file_context U sv req refs s2 = (Inr fileContext, s3)"
    and "in_module (getRelevantMessages U doc1 (r_message req)) s3 = (Inr ctx, s4)"
    and "sendMessageStream sv (history doc1) (contextPrompt fileContext ctx @ r_message req)
           = Inr (chunks, None)"
    and "consume_stream sv req chunks [] s4 = (reply, s5)"
    and "fst (u_generateEmbedding U reply (embed s5)) = Inr v"
    and "save_error sv 2 = Some err"
  shows "fst (answer U e sv req doc refs s1) = Inl err"
proof -
  obtain w1 where "u_generateEmbedding U reply (embed s5) = (Inr v, w1)"
    using assms(6) by (cases "u_generateEmbedding U reply (embed s5)") simp
  then show ?thesis
    using assms(7)
    by (simp add: answer_tail [OF assms(1-3)] stream_reply_passes [OF assms(4,5)]
        and_then_def complete_def in_module_def save_def Let_def)
qed

lemma all_steps_pass:
  assumes "summarize_step U sv doc s1 = (Inr doc1, s2)"
    and "file_context U sv req refs s2 = (Inr fileContext, s3)"
    and "in_module (getRelevantMessages U doc1 (r_message req)) s3 = (Inr ctx, s4)"
    and "sendMessageStream sv (history doc1) (contextPrompt fileContext ctx @ r_message req)
           = Inr (chunks, None)"
    and "consume_stream sv req chunks [] s4 = (reply, s5)"
    and "fst (u_generateEmbedding U reply (embed s5)) = Inr v"
    and "save_error sv 2 = None"
  shows "\<exists>t. fst (answer U e sv req doc refs s1) = Inr (Res200 reply t)"
proof -
  obtain w1 where "u_generateEmbedding U reply (embed s5) = (Inr v, w1)"
    using assms(6) by (cases "u_generateEmbedding U reply (embed s5)") simp
  then show ?thesis
    using assms(7)
    by (simp add: answer_tail [OF assms(1-3)] stream_reply_passes [OF assms(4,5)]
        and_then_def complete_def in_module_def save_def Let_def)
qed

text \<open>The retrieval of the conversation context always hands a context on.\<close>

lemma context_step_returns:
  "\<exists>ctx s4. in_module (getRelevantMessages U doc1 q) s3 = (Inr ctx, s4)"
  by (auto simp: in_module_def getRelevantMessages_def split: prod.splits sum.splits)

text \<open>
  C8, as amended: no path of \<open>sendMessage\<close> removes a persisted message: whatever the
  outcome, the conversation in the database still starts with the messages it held
  before, and once the user message has been appended and saved, it stays there. When a
  step after the append fails whose failure \<open>sendMessage\<close> does not handle locally, the
  request fails with the error of that step: the response is the 500 with the detail of
  that error (the detail of its upstream response, else its message) and, when a socket
  server is set, the last event emitted to the user's room is the error event with its
  message. These steps are, in the order of the source: the summarizer and the save of
  the summary, when the trigger fires; the query for the referenced files and the
  retrieval from their chunks, when the message refers to files; the streaming call,
  whether it rejects or its stream ends in an error; the embedding of the reply; the
  last save. The steps before the append (the lookup of the chat, the query for the file
  references, the embedding of the message) and the save of the appended message fail
  the request in the same way and leave the database as it was. The retrieval of the
  conversation context and the title generation handle their own failures: when the
  other steps pass, the request is answered with the reply. Every failed request carries
  the detail of the error caught and, when a socket server is set, ends with its error
  event.
\<close>

theorem sendMessage_failure:
  assumes "sendMessage U e sv req s = (res, s')"
  shows "(\<forall>d0. persisted s = Some d0 \<longrightarrow> keeps (messages d0) s')
    \<and> (\<forall>doc refs s1. receive U sv req s = (Inr (Inr (doc, refs)), s1) \<longrightarrow>
          (\<exists>d0 emb. persisted s = Some d0
             \<and> messages doc = messages d0 @ [user_message req emb refs]
             \<and> persisted s1 = Some doc)
          \<and> keeps (messages doc) s'
          \<and> (stream_fails sv \<longrightarrow> (\<exists>detail. res = Res500 detail))
          \<and> (\<forall>err. shouldSummarize (length (messages doc))
                \<and> fst (u_generateSummary U (slice_js (messages doc) (- 11) (- 1)) (embed s1))
                    = Inl err
                \<longrightarrow> fails_with sv req err res s')
          \<and> (\<forall>sm err. shouldSummarize (length (messages doc))
                \<and> fst (u_generateSummary U (slice_js (messages doc) (- 11) (- 1)) (embed s1))
                    = Inr sm
                \<and> save_error sv 1 = Some err
                \<longrightarrow> fails_with sv req err res s')
          \<and> (\<forall>doc1 s2. summarize_step U sv doc s1 = (Inr doc1, s2) \<longrightarrow>
                (\<forall>err. refs \<noteq> [] \<and> find_files sv (map fst refs) = Inl err
                   \<longrightarrow> fails_with sv req err res s')
                \<and> (\<forall>files err. refs \<noteq> [] \<and> find_files sv (map fst refs) = Inr files
                      \<and> allChunks files \<noteq> []
                      \<and> fst (u_findRelevantChunks U (r_message req) (Some (allChunks files)) 3
                               (embed s2)) = Inl err
                      \<longrightarrow> fails_with sv req err res s')
                \<and> (\<forall>fileContext s3 ctx s4.
                      file_context U sv req refs s2 = (Inr fileContext, s3)
                      \<and> in_module (getRelevantMessages U doc1 (r_message req)) s3 = (Inr ctx, s4)
                      \<longrightarrow>
                      (\<forall>err. sendMessageStream sv (history doc1)
                                (contextPrompt fileContext ctx @ r_message req) = Inl err
                              \<or> (\<exists>chunks. sendMessageStream sv (history doc1)
                                             (contextPrompt fileContext ctx @ r_message req)
                                           = Inr (chunks, Some err))
                         \<longrightarrow> fails_with sv req err res s')
                      \<and> (\<forall>chunks reply s5.
                            sendMessageStream sv (history doc1)
                              (contextPrompt fileContext ctx @ r_message req) = Inr (chunks, None)
                            \<and> consume_stream sv req chunks [] s4 = (reply, s5)
                            \<longrightarrow>
                            (\<forall>err. fst (u_generateEmbedding U reply (embed s5)) = Inl err
                               \<longrightarrow> fails_with sv req err res s')
                            \<and> (\<forall>v err. fst (u_generateEmbedding U reply (embed s5)) = Inr v
                                  \<and> save_error sv 2 = Some err
                                  \<longrightarrow> fails_with sv req err res s')
                            \<and> (\<forall>v. fst (u_generateEmbedding U reply (embed s5)) = Inr v
                                  \<and> save_error sv 2 = None
                                  \<longrightarrow> (\<exists>t. res = Res200 reply t))))))
    \<and> (\<forall>detail. res = Res500 detail \<longrightarrow>
          (\<exists>err. detail = error_detail err
             \<and> (io sv \<longrightarrow> emitted s' \<noteq> []
                   \<and> last (emitted s') = (r_userId req, ErrorEvent (r_chatId req) (message err)))))
    \<and> (\<forall>err. findOne_error sv = Some err
          \<longrightarrow> fails_with sv req err res s' \<and> persisted s' = persisted s)
    \<and> (\<forall>d0 ids err. findOne_error sv = None \<and> persisted s = Some d0
          \<and> r_fileIds req = Some ids \<and> ids \<noteq> [] \<and> find_refs sv ids = Inl err
          \<longrightarrow> fails_with sv req err res s' \<and> persisted s' = persisted s)
    \<and> (\<forall>d0 refs err. findOne_error sv = None \<and> persisted s = Some d0
          \<and> resolve_refs sv req = Inr refs
          \<and> fst (u_generateEmbedding U (r_message req) (embed s)) = Inl err
          \<longrightarrow> fails_with sv req err res s' \<and> persisted s' = persisted s)
    \<and> (\<forall>d0 refs v err. findOne_error sv = None \<and> persisted s = Some d0
          \<and> resolve_refs sv req = Inr refs
          \<and> fst (u_generateEmbedding U (r_message req) (embed s)) = Inr v
          \<and> save_error sv 0 = Some err
          \<longrightarrow> fails_with sv req err res s' \<and> persisted s' = persisted s)"
  using assms
  apply (intro conjI allI impI)
  subgoal for d0
    by (cases rule: sendMessage_cases) (auto dest: body_keeps simp: keeps_emit)
  subgoal for doc refs s1 by (rule receive_saved)
  subgoal for doc refs s1
  proof -
    assume run: "sendMessage U e sv req s = (res, s')"
      and rcv: "receive U sv req s = (Inr (Inr (doc, refs)), s1)"
    from receive_saved [OF rcv] have k1: "keeps (messages doc) s1" by (auto simp: keeps_def)
    from run show "keeps (messages doc) s'"
    proof (cases rule: sendMessage_cases)
      case answered
      then show ?thesis using body_after_receive [OF rcv, of e] answer_keeps [OF _ k1] by simp
    next
      case (handled err s2)
      then show ?thesis
        using body_after_receive [OF rcv, of e] answer_keeps [OF _ k1] by (simp add: keeps_emit)
    qed
  qed
  subgoal for doc refs s1
  proof -
    assume run: "sendMessage U e sv req s = (res, s')"
      and rcv: "receive U sv req s = (Inr (Inr (doc, refs)), s1)"
      and "stream_fails sv"
    then obtain err where "fst (answer U e sv req doc refs s1) = Inl err"
      using answer_stream_fails by blast
    from handler_fails_with [OF run rcv this] show "\<exists>detail. res = Res500 detail"
      by (simp add: fails_with_def)
  qed
  subgoal by (elim conjE) (rule handler_fails_with, assumption, assumption,
      rule summarizer_fails; assumption)
  subgoal by (elim conjE) (rule handler_fails_with, assumption, assumption,
      rule second_save_fails; assumption)
  subgoal by (elim conjE) (rule handler_fails_with, assumption, assumption,
      rule find_files_fails; assumption)
  subgoal by (elim conjE) (rule handler_fails_with, assumption, assumption,
      rule file_retrieval_fails; assumption)
  subgoal by (elim conjE) (rule handler_fails_with, assumption, assumption,
      rule stream_call_fails; assumption)
  subgoal by (elim conjE) (rule handler_fails_with, assumption, assumption,
      rule reply_embedding_fails; assumption)
  subgoal by (elim conjE) (rule handler_fails_with, assumption, assumption,
      rule last_save_fails; assumption)
  subgoal for doc refs s1 doc1 s2 fileContext s3 ctx s4 chunks reply s5 v
  proof -
    assume run: "sendMessage U e sv req s = (res, s')"
      and rcv: "receive U sv req s = (Inr (Inr (doc, refs)), s1)"
      and sm: "summarize_step U sv doc s1 = (Inr doc1, s2)"
      and ctx: "file_context U sv req refs s2 = (Inr fileContext, s3)
                \<and> in_module (getRelevantMessages U doc1 (r_message req)) s3 = (Inr ctx, s4)"
      and st: "sendMessageStream sv (history doc1)
                  (contextPrompt fileContext ctx @ r_message req) = Inr (chunks, None)
               \<and> consume_stream sv req chunks [] s4 = (reply, s5)"
      and fin: "fst (u_generateEmbedding U reply (embed s5)) = Inr v \<and> save_error sv 2 = None"
    from all_steps_pass [OF sm ctx [THEN conjunct1] ctx [THEN conjunct2] st [THEN conjunct1]
        st [THEN conjunct2] fin [THEN conjunct1] fin [THEN conjunct2], of e]
    obtain t where "fst (answer U e sv req doc refs s1) = Inr (Res200 reply t)" by blast
    from handler_answers [OF run rcv this] show "\<exists>t. res = Res200 reply t" by blast
  qed
  subgoal for detail
  proof -
    assume run: "sendMessage U e sv req s = (res, s')" and failed: "res = Res500 detail"
    from run show ?thesis
    proof (cases rule: sendMessage_cases)
      case answered
      then show ?thesis using body_result failed by blast
    next
      case (handled err s2)
      then show ?thesis using failed by (auto simp: emit_frame)
    qed
  qed
  subgoal by (rule findOne_fails [THEN conjunct1]; assumption)
  subgoal by (rule findOne_fails [THEN conjunct2]; assumption)
  subgoal by (elim conjE) (rule find_refs_fails [THEN conjunct1]; assumption)
  subgoal by (elim conjE) (rule find_refs_fails [THEN conjunct2]; assumption)
  subgoal by (elim conjE) (rule message_embedding_fails [THEN conjunct1]; assumption)
  subgoal by (elim conjE) (rule message_embedding_fails [THEN conjunct2]; assumption)
  subgoal by (elim conjE) (rule first_save_fails [THEN conjunct1]; assumption)
  subgoal by (elim conjE) (rule first_save_fails [THEN conjunct2]; assumption)
  done

theorem sendMessage_failure_witness:
  "receive (utils_v2 env_up) services_stream_down req_hello (state_of (chat_of 0))
     = (Inr (Inr (\<lparr>messages = [user_message req_hello [1, 0] []], summaries = [],
                    title = ''New Chat''\<rparr>, [])),
        \<lparr>persisted = Some \<lparr>messages = [user_message req_hello [1, 0] []], summaries = [],
                            title = ''New Chat''\<rparr>,
         emitted = [(''u1'', Processing ''c1'' ''started'' None)],
         embed = \<lparr>embeddingCache = [(''Hello'', [1, 0])], ticks = 1\<rparr>\<rparr>)
   \<and> stream_fails services_stream_down
   \<and> fst (sendMessage (utils_v2 env_up) env_up services_stream_down req_hello (state_of (chat_of 0)))
       = Res500 ''quota exceeded''
   \<and> emitted (snd (sendMessage (utils_v2 env_up) env_up services_stream_down req_hello
                     (state_of (chat_of 0))))
       = [(''u1'', Processing ''c1'' ''started'' None),
          (''u1'', ErrorEvent ''c1'' ''Request failed with status code 429'')]
   \<and> keeps [\<lparr>sender = ''user'', content = ''Hello'', m_embedding = Some [1, 0], fileRefs = []\<rparr>]
        (snd (sendMessage (utils_v2 env_up) env_up services_stream_down req_hello
                (state_of (chat_of 0))))
   \<and> find_files services_files_down [''f1''] = Inl (Error ''database unavailable'' None)
   \<and> fst (sendMessage (utils_v2 env_up) env_up services_files_down req_file (state_of (chat_of 0)))
       = Res500 ''database unavailable''
   \<and> last (emitted (snd (sendMessage (utils_v2 env_up) env_up services_files_down req_file
                           (state_of (chat_of 0)))))
       = (''u1'', ErrorEvent ''c1'' ''database unavailable'')
   \<and> keeps [\<lparr>sender = ''user'', content = ''Hello'', m_embedding = Some [1, 0],
               fileRefs = [(''f1'', ''notes.txt'')]\<rparr>]
        (snd (sendMessage (utils_v2 env_up) env_up services_files_down req_file
                (state_of (chat_of 0))))
   \<and> save_error services_save_down 2 = Some (Error ''write failed'' None)
   \<and> fst (sendMessage (utils_v2 env_up) env_up services_save_down req_hello (state_of (chat_of 0)))
       = Res500 ''write failed''
   \<and> last (emitted (snd (sendMessage (utils_v2 env_up) env_up services_save_down req_hello
                           (state_of (chat_of 0)))))
       = (''u1'', ErrorEvent ''c1'' ''write failed'')
   \<and> keeps [\<lparr>sender = ''user'', content = ''Hello'', m_embedding = Some [1, 0], fileRefs = []\<rparr>]
        (snd (sendMessage (utils_v2 env_up) env_up services_save_down req_hello
                (state_of (chat_of 0))))"
proof -
  define U where "U = utils_v2 env_up"
  define s0 where "s0 = state_of (chat_of 0)"
  define w1 where "w1 = \<lparr>embeddingCache = [(''Hello'', [1 :: real, 0])], ticks = 1\<rparr>"
  have emb: "u_generateEmbedding U ''Hello'' world0 = (Inr [1, 0], w1)"
    by (simp add: U_def utils_v2_def generateEmbedding_v2_def embedContent_call_def env_up_def
        world0_def cache_store_def numeral_2_eq_2 w1_def)
  have rcv: "receive U sv req s0
      = (Inr (Inr (\<lparr>messages = [user_message req [1, 0] refs], summaries = [],
                     title = ''New Chat''\<rparr>, refs)),
         \<lparr>persisted = Some \<lparr>messages = [user_message req [1, 0] refs], summaries = [],
                             title = ''New Chat''\<rparr>,
          emitted = [(''u1'', Processing ''c1'' ''started'' None)], embed = w1\<rparr>)"
    if "findOne_error sv = None" "resolve_refs sv req = Inr refs" "save_error sv 0 = None"
      "io sv" "r_message req = ''Hello''" "r_userId req = ''u1''" "r_chatId req = ''c1''"
    for sv req refs
    using that
    by (simp add: receive_def s0_def state_of_def chat_of_def and_then_def in_module_def emb
        save_def emit_def Let_def)
  have quiet: "summarize_step U sv \<lparr>messages = [m], summaries = [], title = ''New Chat''\<rparr> s1
      = (Inr \<lparr>messages = [m], summaries = [], title = ''New Chat''\<rparr>, s1)" for sv m s1
    by (simp add: summarize_step_def shouldSummarize_def)

  \<comment> \<open>The streaming call rejects.\<close>
  define doc1 where "doc1 = \<lparr>messages = [user_message req_hello [1, 0] []], summaries = [],
                    title = ''New Chat''\<rparr>"
  define s1 where "s1 = \<lparr>persisted = Some doc1,
         emitted = [(''u1'', Processing ''c1'' ''started'' None)], embed = w1\<rparr>"
  have rcv1: "receive U services_stream_down req_hello s0 = (Inr (Inr (doc1, [])), s1)"
    unfolding doc1_def s1_def
    by (rule rcv) (simp_all add: services_stream_down_def services_up_def resolve_refs_def
        req_hello_def)
  have sf: "stream_fails services_stream_down"
    by (simp add: stream_fails_def services_stream_down_def)
  have answer_run: "answer U env_up services_stream_down req_hello doc1 [] s1
      = (Inl (Error ''Request failed with status code 429'' (Some ''quota exceeded'')), s1)"
    by (simp add: answer_def and_then_def summarize_step_def shouldSummarize_def file_context_def
        in_module_def getRelevantMessages_def stream_reply_def services_stream_down_def
        services_up_def doc1_def s1_def)
  have run: "sendMessage U env_up services_stream_down req_hello s0
      = (Res500 ''quota exceeded'',
         emit services_stream_down req_hello
           (ErrorEvent ''c1'' ''Request failed with status code 429'') s1)"
    by (simp add: sendMessage_def and_then_def rcv1 answer_run error_detail_def)
       (simp add: req_hello_def)
  have kept: "keeps (messages doc1)
       (emit services_stream_down req_hello
           (ErrorEvent ''c1'' ''Request failed with status code 429'') s1)"
    using sendMessage_failure [OF run] rcv1 by blast
  have ev: "emitted (emit services_stream_down req_hello
           (ErrorEvent ''c1'' ''Request failed with status code 429'') s1)
      = [(''u1'', Processing ''c1'' ''started'' None),
          (''u1'', ErrorEvent ''c1'' ''Request failed with status code 429'')]"
    by (simp add: emit_def services_stream_down_def services_up_def req_hello_def s1_def)
  have first: "receive U services_stream_down req_hello s0 = (Inr (Inr (doc1, [])), s1)
      \<and> stream_fails services_stream_down
      \<and> fst (sendMessage U env_up services_stream_down req_hello s0) = Res500 ''quota exceeded''
      \<and> emitted (snd (sendMessage U env_up services_stream_down req_hello s0))
          = [(''u1'', Processing ''c1'' ''started'' None),
             (''u1'', ErrorEvent ''c1'' ''Request failed with status code 429'')]
      \<and> keeps (messages doc1) (snd (sendMessage U env_up services_stream_down req_hello s0))"
    using rcv1 sf kept ev unfolding run by simp

  \<comment> \<open>The query for the referenced file fails.\<close>
  define doc2 where "doc2 = \<lparr>messages = [user_message req_file [1, 0] [(''f1'', ''notes.txt'')]],
                    summaries = [], title = ''New Chat''\<rparr>"
  define s2 where "s2 = \<lparr>persisted = Some doc2,
         emitted = [(''u1'', Processing ''c1'' ''started'' None)], embed = w1\<rparr>"
  define out2 where "out2 = sendMessage U env_up services_files_down req_file s0"
  have rcv2: "receive U services_files_down req_file s0
      = (Inr (Inr (doc2, [(''f1'', ''notes.txt'')])), s2)"
    unfolding doc2_def s2_def
    by (rule rcv) (simp_all add: services_files_down_def services_up_def resolve_refs_def
        req_file_def)
  have sm2: "summarize_step U services_files_down doc2 s2 = (Inr doc2, s2)"
    unfolding doc2_def by (rule quiet)
  have down: "find_files services_files_down [''f1''] = Inl (Error ''database unavailable'' None)"
    by (simp add: services_files_down_def)
  have run2: "sendMessage U env_up services_files_down req_file s0 = (fst out2, snd out2)"
    by (simp add: out2_def)
  note after2 = sendMessage_failure [OF run2, THEN conjunct2, THEN conjunct1, rule_format,
      OF rcv2]
  have kept2: "keeps (messages doc2) (snd out2)"
    using after2 by blast
  have "fails_with services_files_down req_file (Error ''database unavailable'' None)
          (fst out2) (snd out2)"
    using after2 [THEN conjunct2, THEN conjunct2, THEN conjunct2, THEN conjunct2,
        THEN conjunct2, rule_format, OF sm2, THEN conjunct1, rule_format] down
    by simp
  then have second: "fst out2 = Res500 ''database unavailable''
      \<and> last (emitted (snd out2)) = (''u1'', ErrorEvent ''c1'' ''database unavailable'')"
    by (simp add: fails_with_def services_files_down_def services_up_def req_file_def)

  \<comment> \<open>The last save fails.\<close>
  define s5 where "s5 = s1\<lparr>emitted := [(''u1'', Processing ''c1'' ''started'' None),
                                         (''u1'', MessageChunk ''c1'' ''Hi''),
                                         (''u1'', MessageChunk ''c1'' '' there'')]\<rparr>"
  define out3 where "out3 = sendMessage U env_up services_save_down req_hello s0"
  have rcv3: "receive U services_save_down req_hello s0 = (Inr (Inr (doc1, [])), s1)"
    unfolding doc1_def s1_def
    by (rule rcv) (simp_all add: services_save_down_def services_up_def resolve_refs_def
        req_hello_def)
  have sm3: "summarize_step U services_save_down doc1 s1 = (Inr doc1, s1)"
    unfolding doc1_def by (rule quiet)
  have fc3: "file_context U services_save_down req_hello [] s1 = (Inr [], s1)"
    by (simp add: file_context_def)
  have gm3: "in_module (getRelevantMessages U doc1 (r_message req_hello)) s1 = (Inr [], s1)"
    by (simp add: in_module_def getRelevantMessages_def doc1_def s1_def)
  have st3: "sendMessageStream services_save_down (history doc1)
        (contextPrompt [] [] @ r_message req_hello) = Inr ([''Hi'', [], '' there''], None)"
    by (simp add: services_save_down_def services_up_def)
  have cs3: "consume_stream services_save_down req_hello [''Hi'', [], '' there''] [] s1
      = (''Hi there'', s5)"
    by (simp add: emit_def services_save_down_def services_up_def req_hello_def s1_def s5_def)
  have emb3: "fst (u_generateEmbedding U ''Hi there'' (embed s5)) = Inr [1, 0]"
    by (simp add: U_def utils_v2_def generateEmbedding_v2_def embedContent_call_def env_up_def
        cache_store_def numeral_2_eq_2 s5_def s1_def w1_def)
  have sv3: "save_error services_save_down 2 = Some (Error ''write failed'' None)"
    by (simp add: services_save_down_def)
  have run3: "sendMessage U env_up services_save_down req_hello s0 = (fst out3, snd out3)"
    by (simp add: out3_def)
  note after3 = sendMessage_failure [OF run3, THEN conjunct2, THEN conjunct1, rule_format,
      OF rcv3]
  have kept3: "keeps (messages doc1) (snd out3)"
    using after3 by blast
  have "fails_with services_save_down req_hello (Error ''write failed'' None)
          (fst out3) (snd out3)"
    using after3 [THEN conjunct2, THEN conjunct2, THEN conjunct2, THEN conjunct2,
        THEN conjunct2, rule_format, OF sm3, THEN conjunct2, THEN conjunct2, rule_format,
        OF conjI [OF fc3 gm3], THEN conjunct2, rule_format, OF conjI [OF st3 cs3],
        THEN conjunct2, THEN conjunct1, rule_format, OF conjI [OF emb3 sv3]] .
  then have third: "fst out3 = Res500 ''write failed''
      \<and> last (emitted (snd out3)) = (''u1'', ErrorEvent ''c1'' ''write failed'')"
    by (simp add: fails_with_def services_save_down_def services_up_def req_hello_def)
  show ?thesis
    using first down second kept2 sv3 third kept3
    unfolding out2_def out3_def U_def s0_def doc1_def doc2_def s1_def w1_def
    by (simp add: user_message_def req_hello_def req_file_def)
qed

text \<open>
  C8, as stated, fails: the claim has every failing step after the append end in an
  error notification and a failed request. On a first message whose title generation
  fails (a step after the append), the request succeeds with the fallback title and no
  error event is emitted.
\<close>

theorem title_failure_counterexample:
  "generateContent env_title_down 2 (titlePrompt ''Hello'' ''Hi there'')
     = Inl (Error ''unavailable'' None)
   \<and> sendMessage (utils_v2 env_title_down) env_title_down services_up req_hello
        (state_of (chat_of 0))
     = (Res200 ''Hi there'' ''Hello'',
        \<lparr>persisted = Some \<lparr>messages = [user_message req_hello [1, 0] [],
                                        ai_message ''Hi there'' [1, 0]],
                            summaries = [], title = ''Hello''\<rparr>,
         emitted = [(''u1'', Processing ''c1'' ''started'' None),
                    (''u1'', MessageChunk ''c1'' ''Hi''),
                    (''u1'', MessageChunk ''c1'' '' there''),
                    (''u1'', Processing ''c1'' ''completed'' (Some ''Hello''))],
         embed = \<lparr>embeddingCache = [(''Hello'', [1, 0]), (''Hi there'', [1, 0])],
                  ticks = 3\<rparr>\<rparr>)"
  by (simp add: sendMessage_def receive_def answer_def complete_def and_then_def in_module_def
      services_up_def state_of_def chat_of_def resolve_refs_def req_hello_def utils_v2_def
      generateEmbedding_v2_def embedContent_call_def env_title_down_def env_up_def world0_def
      cache_store_def numeral_2_eq_2 numeral_3_eq_3 save_def emit_def user_message_def ai_message_def
      Let_def summarize_step_def shouldSummarize_def file_context_def getRelevantMessages_def
      stream_reply_def contextPrompt_def history_def slice_js_def title_step_def
      generateContent_call_def fallback_title_def)

section \<open>Verification: the title of the first exchange\<close>

text \<open>What \<open>trim\<close> strips: the code units 9 to 13, 32 and 160, from both ends and from
  nowhere else.\<close>

lemma is_space_code: "is_space c \<longleftrightarrow> of_char c \<in> {9, 10, 11, 12, 13, 32, 160 :: nat}"
proof -
  have eq: "(c = d) = ((of_char c :: nat) = of_char d)" for d by auto
  show ?thesis
    by (simp only: is_space_def list.set insert_iff empty_iff eq) simp
qed

lemma trim_strips:
  assumes "\<forall>c \<in> set a. is_space c" "\<forall>c \<in> set z. is_space c"
    and "b \<noteq> []" "\<not> is_space (hd b)" "\<not> is_space (last b)"
  shows "trim (a @ b @ z) = b"
proof -
  have front: "dropWhile is_space (a @ b @ z) = b @ z"
    using assms(1,3,4) by (cases b) (simp_all add: dropWhile_append)
  have "dropWhile is_space (rev z @ rev b) = rev b"
    using assms(2,3,5) by (cases b rule: rev_cases) (simp_all add: dropWhile_append)
  then show ?thesis by (simp add: trim_def front)
qed

lemma trim_blank:
  assumes "\<forall>c \<in> set a. is_space c"
  shows "trim a = []"
proof -
  have blank: "dropWhile is_space a = []" using assms by (simp add: dropWhile_eq_Nil_conv)
  show ?thesis unfolding trim_def blank by simp
qed









end
